theory Spec2Isabelle
  imports Complex_Main
begin

section \<open>The program representation used by Bufferize.cpp\<close>

text \<open>
  The pass in \<^verbatim>\<open>lib/Dialect/TCP/Transforms/Bufferize.cpp\<close> rewrites operations on tensors
  into operations on memrefs. Everything it does is done through the builder interface of
  the host compiler framework: it inspects operations, creates new ones and replaces old
  ones. This section fixes the part of that framework the file touches: types, SSA values,
  operations, and the state of a builder.
\<close>

subsection \<open>Types, values, attributes\<close>

text \<open>
  A dimension of a shaped type is a signed size; \<open>-1\<close> marks a dynamic dimension.
  \<^verbatim>\<open>cast<RankedTensorType>\<close> asserts; the assertion is the fault \<open>CastFailed\<close>, and an
  index past the end of a \<^verbatim>\<open>SmallVector\<close> or \<^verbatim>\<open>ArrayRef\<close> is the fault \<open>IndexOutOfRange\<close>.
\<close>

datatype mtype =
    IndexType
  | IntegerType nat
  | FloatType nat
  | RankedTensorType "int list" mtype
  | UnrankedTensorType mtype
  | MemRefType "int list" mtype

datatype ssa_value = Value (valueId: nat) (getType: mtype)

datatype attribute = FloatAttr mtype real | IntegerAttr mtype int

datatype CmpIPredicate = cmp_eq | cmp_ne | cmp_slt | cmp_sle | cmp_sgt | cmp_sge

datatype fault = CastFailed | IndexOutOfRange

datatype LogicalResult = success | failure

datatype 'a FailureOr = Failed | Succeeded 'a

definition bindF :: "('f + 'a) \<Rightarrow> ('a \<Rightarrow> 'f + 'b) \<Rightarrow> 'f + 'b" where
  "bindF m k = (case m of Inl e \<Rightarrow> Inl e | Inr x \<Rightarrow> k x)"

definition at_index :: "'a list \<Rightarrow> int \<Rightarrow> fault + 'a" where
  "at_index xs i = (if 0 \<le> i \<and> i < int (length xs) then Inr (xs ! nat i) else Inl IndexOutOfRange)"

definition castRankedTensorType :: "mtype \<Rightarrow> fault + (int list \<times> mtype)" where
  "castRankedTensorType ty =
     (case ty of RankedTensorType dims et \<Rightarrow> Inr (dims, et) | _ \<Rightarrow> Inl CastFailed)"

definition castMemRefType :: "mtype \<Rightarrow> fault + (int list \<times> mtype)" where
  "castMemRefType ty =
     (case ty of MemRefType dims et \<Rightarrow> Inr (dims, et) | _ \<Rightarrow> Inl CastFailed)"

subsection \<open>Operations\<close>

datatype dialect = TCP | Refback | Linalg | StandardOps | SCF | ShapeDialect | OtherDialect string

datatype op_name = OpName (dialectOf: dialect) string

text \<open>
  \<open>operation\<close> is the generic \<^verbatim>\<open>Operation\<close>: a name, operands and typed results. The typed
  wrappers \<^verbatim>\<open>tcp::BroadcastToOp\<close> and \<^verbatim>\<open>tcp::MatmulOp\<close> are views of it; \<^verbatim>\<open>dyn_cast\<close> compares the
  name. The operations the pass creates are constructors of \<open>op\<close>, each with its result
  value first; \<open>ForOp lb ub step iv body\<close> is \<^verbatim>\<open>scf.for\<close> with its induction variable and its
  body (the implicit \<^verbatim>\<open>scf.yield\<close> is left out). \<open>DimOp r v i\<close> is \<^verbatim>\<open>std.dim\<close> of \<open>v\<close> at the
  constant index \<open>i\<close>: the index constant its builder makes is part of it, not an
  operation of its own.
\<close>

record operation =
  opName :: op_name
  operands :: "ssa_value list"
  results :: "ssa_value list"

datatype op =
    ConstantIndexOp ssa_value int
  | ConstantOp ssa_value attribute
  | DimOp ssa_value ssa_value int
  | GetExtentOp ssa_value ssa_value ssa_value
  | CmpIOp ssa_value CmpIPredicate ssa_value ssa_value
  | SelectOp ssa_value ssa_value ssa_value ssa_value
  | LoadOp ssa_value ssa_value "ssa_value list"
  | StoreOp ssa_value ssa_value "ssa_value list"
  | TensorFromElementsOp ssa_value "ssa_value list"
  | AllocMemRefOp ssa_value ssa_value
  | FillOp ssa_value ssa_value
  | LinalgMatmulOp "ssa_value list" "ssa_value list"
  | ForOp ssa_value ssa_value ssa_value ssa_value "op list"
  | GenericOp operation

definition tcp_broadcast_to :: op_name where
  "tcp_broadcast_to = OpName TCP ''broadcast_to''"

definition tcp_matmul :: op_name where
  "tcp_matmul = OpName TCP ''matmul''"

definition refback_alloc_memref :: op_name where
  "refback_alloc_memref = OpName Refback ''alloc_memref''"

definition shape_get_extent :: op_name where
  "shape_get_extent = OpName ShapeDialect ''get_extent''"

fun getName :: "op \<Rightarrow> op_name" where
  "getName (ConstantIndexOp r n) = OpName StandardOps ''constant''"
| "getName (ConstantOp r a) = OpName StandardOps ''constant''"
| "getName (DimOp r v i) = OpName StandardOps ''dim''"
| "getName (GetExtentOp r sh d) = shape_get_extent"
| "getName (CmpIOp r p a b) = OpName StandardOps ''cmpi''"
| "getName (SelectOp r c a b) = OpName StandardOps ''select''"
| "getName (LoadOp r m idx) = OpName StandardOps ''load''"
| "getName (StoreOp v m idx) = OpName StandardOps ''store''"
| "getName (TensorFromElementsOp r es) = OpName StandardOps ''tensor_from_elements''"
| "getName (AllocMemRefOp r sh) = refback_alloc_memref"
| "getName (FillOp out v) = OpName Linalg ''fill''"
| "getName (LinalgMatmulOp ins outs) = OpName Linalg ''matmul''"
| "getName (ForOp lb ub st iv body) = OpName SCF ''for''"
| "getName (GenericOp g) = opName g"

subsection \<open>Builder state\<close>

text \<open>
  \<^verbatim>\<open>OpBuilder\<close> and \<^verbatim>\<open>ConversionPatternRewriter\<close> insert operations at an insertion point of
  the program. The state is the block that holds the insertion point (the operations
  inserted so far, in order; an operation is created right before the insertion point),
  the loops entered since (for each: the operations of the parent block before the loop,
  and the loop's bounds, step and induction variable), the recorded replacements, and a
  counter that stands for the allocation of a new, distinct SSA value.
\<close>

record ir_state =
  nextValue :: nat
  block :: "op list"
  enclosing :: "(op list \<times> ssa_value \<times> ssa_value \<times> ssa_value \<times> ssa_value) list"
  replacements :: "(operation \<times> ssa_value list) list"

definition newValue :: "mtype \<Rightarrow> ir_state \<Rightarrow> ssa_value \<times> ir_state" where
  "newValue ty s = (Value (nextValue s) ty, s\<lparr>nextValue := Suc (nextValue s)\<rparr>)"

definition insertOp :: "op \<Rightarrow> ir_state \<Rightarrow> ir_state" where
  "insertOp x s = s\<lparr>block := block s @ [x]\<rparr>"

definition create_ConstantIndexOp :: "int \<Rightarrow> ir_state \<Rightarrow> ssa_value \<times> ir_state" where
  "create_ConstantIndexOp n s =
     (let (r, s1) = newValue IndexType s in (r, insertOp (ConstantIndexOp r n) s1))"

definition create_ConstantOp :: "attribute \<Rightarrow> ir_state \<Rightarrow> ssa_value \<times> ir_state" where
  "create_ConstantOp a s =
     (let ty = (case a of FloatAttr t x \<Rightarrow> t | IntegerAttr t n \<Rightarrow> t);
          (r, s1) = newValue ty s
      in (r, insertOp (ConstantOp r a) s1))"

definition create_DimOp :: "ssa_value \<Rightarrow> int \<Rightarrow> ir_state \<Rightarrow> ssa_value \<times> ir_state" where
  "create_DimOp v i s =
     (let (r, s1) = newValue IndexType s in (r, insertOp (DimOp r v i) s1))"

definition create_GetExtentOp :: "mtype \<Rightarrow> ssa_value \<Rightarrow> ssa_value \<Rightarrow> ir_state \<Rightarrow> ssa_value \<times> ir_state" where
  "create_GetExtentOp ty sh d s =
     (let (r, s1) = newValue ty s in (r, insertOp (GetExtentOp r sh d) s1))"

definition create_CmpIOp :: "CmpIPredicate \<Rightarrow> ssa_value \<Rightarrow> ssa_value \<Rightarrow> ir_state \<Rightarrow> ssa_value \<times> ir_state" where
  "create_CmpIOp p a b s =
     (let (r, s1) = newValue (IntegerType 1) s in (r, insertOp (CmpIOp r p a b) s1))"

definition create_SelectOp :: "ssa_value \<Rightarrow> ssa_value \<Rightarrow> ssa_value \<Rightarrow> ir_state \<Rightarrow> ssa_value \<times> ir_state" where
  "create_SelectOp c a b s =
     (let (r, s1) = newValue (getType a) s in (r, insertOp (SelectOp r c a b) s1))"

text \<open>The result of a load has the element type of the memref; the builder casts the
  memref's type to \<^verbatim>\<open>MemRefType\<close>.\<close>

definition create_LoadOp :: "ssa_value \<Rightarrow> ssa_value list \<Rightarrow> ir_state \<Rightarrow> fault + (ssa_value \<times> ir_state)" where
  "create_LoadOp m idx s =
     bindF (castMemRefType (getType m)) (\<lambda>(dims, et).
       let (r, s1) = newValue et s in Inr (r, insertOp (LoadOp r m idx) s1))"

definition create_StoreOp :: "ssa_value \<Rightarrow> ssa_value \<Rightarrow> ssa_value list \<Rightarrow> ir_state \<Rightarrow> ir_state" where
  "create_StoreOp v m idx s = insertOp (StoreOp v m idx) s"

definition create_TensorFromElementsOp :: "ssa_value list \<Rightarrow> ir_state \<Rightarrow> fault + (ssa_value \<times> ir_state)" where
  "create_TensorFromElementsOp es s =
     bindF (at_index es 0) (\<lambda>e0.
       let (r, s1) = newValue (RankedTensorType [int (length es)] (getType e0)) s
       in Inr (r, insertOp (TensorFromElementsOp r es) s1))"

definition create_AllocMemRefOp :: "mtype \<Rightarrow> ssa_value \<Rightarrow> ir_state \<Rightarrow> ssa_value \<times> ir_state" where
  "create_AllocMemRefOp memrefType sh s =
     (let (r, s1) = newValue memrefType s in (r, insertOp (AllocMemRefOp r sh) s1))"

definition create_FillOp :: "ssa_value \<Rightarrow> ssa_value \<Rightarrow> ir_state \<Rightarrow> ir_state" where
  "create_FillOp out v s = insertOp (FillOp out v) s"

definition create_LinalgMatmulOp :: "ssa_value list \<Rightarrow> ssa_value list \<Rightarrow> ir_state \<Rightarrow> ir_state" where
  "create_LinalgMatmulOp ins outs s = insertOp (LinalgMatmulOp ins outs) s"

text \<open>
  \<^verbatim>\<open>create<scf::ForOp>\<close> followed by \<^verbatim>\<open>setInsertionPointToStart(loop.getBody())\<close>: the loop is
  placed at the insertion point and the insertion point moves into its (empty) body. The
  result is the body's argument 0, the induction variable.
\<close>

definition create_ForOp_enter :: "ssa_value \<Rightarrow> ssa_value \<Rightarrow> ssa_value \<Rightarrow> ir_state \<Rightarrow> ssa_value \<times> ir_state" where
  "create_ForOp_enter lb ub st s =
     (let (iv, s1) = newValue IndexType s
      in (iv, s1\<lparr>block := [], enclosing := (block s1, lb, ub, st, iv) # enclosing s1\<rparr>))"

definition closeLoop :: "ir_state \<Rightarrow> ir_state" where
  "closeLoop s =
     (case enclosing s of
        [] \<Rightarrow> s
      | (outer, lb, ub, st, iv) # rest \<Rightarrow>
          s\<lparr>block := outer @ [ForOp lb ub st iv (block s)], enclosing := rest\<rparr>)"

text \<open>
  The destructor of \<^verbatim>\<open>OpBuilder::InsertionGuard\<close> puts the insertion point back where it
  was when the guard was made: every loop entered since is left. \<open>depth\<close> is the number of
  enclosing loops at that time.
\<close>

function restoreInsertionPoint :: "nat \<Rightarrow> ir_state \<Rightarrow> ir_state" where
  "restoreInsertionPoint depth s =
     (if depth < length (enclosing s) then restoreInsertionPoint depth (closeLoop s) else s)"
  by pat_completeness auto
termination
  by (relation "measure (\<lambda>(depth, s). length (enclosing s))")
     (auto simp: closeLoop_def split: list.splits)

definition replaceOp :: "operation \<Rightarrow> ssa_value list \<Rightarrow> ir_state \<Rightarrow> ir_state" where
  "replaceOp old vals s = s\<lparr>replacements := replacements s @ [(old, vals)]\<rparr>"

section \<open>Shape transfer and result allocation\<close>

text \<open>
  \<^verbatim>\<open>bypassResultShapes\<close> makes its own \<^verbatim>\<open>OpBuilder builder(&op)\<close>, whose insertion point is right
  before \<open>op\<close>; the patterns call it while the rewriter's insertion point is at the same
  place, so both insert into the same block. \<^verbatim>\<open>broadcastTo.shape()\<close> is operand 1,
  \<^verbatim>\<open>matmul.lhs()\<close> operand 0 and \<^verbatim>\<open>matmul.rhs()\<close> operand 1.
\<close>

definition bypassResultShapes :: "operation \<Rightarrow> ir_state \<Rightarrow> fault + (ssa_value list \<times> ir_state)" where
  "bypassResultShapes oper s =
     (if opName oper = tcp_broadcast_to then
        bindF (at_index (operands oper) 1) (\<lambda>sh. Inr ([sh], s))
      else if opName oper = tcp_matmul then
        bindF (at_index (operands oper) 0) (\<lambda>lhs.
        bindF (at_index (operands oper) 1) (\<lambda>rhs.
          let (lhsRows, s1) = create_DimOp lhs 0 s;
              (rhsCols, s2) = create_DimOp rhs 1 s1
          in bindF (create_TensorFromElementsOp [lhsRows, rhsCols] s2) (\<lambda>(sh, s3).
               Inr ([sh], s3))))
      else Inr ([], s))"

text \<open>The loop over \<^verbatim>\<open>llvm::zip(op->getResults(), resultShapes)\<close>: it ends with the shorter
  of the two ranges.\<close>

fun allocateResults_loop ::
  "ssa_value list \<Rightarrow> ssa_value list \<Rightarrow> ir_state \<Rightarrow> ssa_value list \<Rightarrow> fault + (ssa_value list \<times> ir_state)" where
  "allocateResults_loop (result # rs) (resultShape # shs) s acc =
     (case castRankedTensorType (getType result) of
        Inl e \<Rightarrow> Inl e
      | Inr (dims, et) \<Rightarrow>
          (let memrefType = MemRefType dims et;
               (memref, s1) = create_AllocMemRefOp memrefType resultShape s
           in allocateResults_loop rs shs s1 (acc @ [memref])))"
| "allocateResults_loop rs shs s acc = Inr (acc, s)"

text \<open>\<open>resultShapesOut\<close> is the optional out-parameter: \<open>None\<close> is \<^verbatim>\<open>nullptr\<close>, \<open>Some xs\<close> a
  vector holding \<open>xs\<close>; it comes back with the shapes appended.\<close>

definition allocateResults ::
  "operation \<Rightarrow> ir_state \<Rightarrow> ssa_value list option \<Rightarrow>
     fault + (ssa_value list FailureOr \<times> ssa_value list option \<times> ir_state)" where
  "allocateResults oper s resultShapesOut =
     bindF (bypassResultShapes oper s) (\<lambda>(resultShapes, s1).
     bindF (allocateResults_loop (results oper) resultShapes s1 []) (\<lambda>(rs, s2).
       Inr (Succeeded rs,
            (case resultShapesOut of None \<Rightarrow> None | Some xs \<Rightarrow> Some (xs @ resultShapes)),
            s2)))"

section \<open>The lowering patterns\<close>

subsection \<open>BroadcastTo to loops\<close>

text \<open>The four counting loops of \<^verbatim>\<open>LowerBroadcastToToLoopsPattern::matchAndRewrite\<close>, each
  \<^verbatim>\<open>for (int i = 0, e = rank; i < e; i++)\<close>, with the vector it fills as accumulator.\<close>

function outputExtents_loop ::
  "int \<Rightarrow> int \<Rightarrow> ssa_value \<Rightarrow> ir_state \<Rightarrow> ssa_value list \<Rightarrow> ssa_value list \<times> ir_state" where
  "outputExtents_loop i e resultShape s outputExtents =
     (if i < e then
        (let (dimIndex, s1) = create_ConstantIndexOp i s;
             (outputExtent, s2) = create_GetExtentOp IndexType resultShape dimIndex s1
         in outputExtents_loop (i + 1) e resultShape s2 (outputExtents @ [outputExtent]))
      else (outputExtents, s))"
  by pat_completeness auto
termination
  by (relation "measure (\<lambda>(i, e, sh, s, acc). nat (e - i))") auto

function inputDimRequiresBroadcasting_loop ::
  "int \<Rightarrow> int \<Rightarrow> ssa_value \<Rightarrow> int \<Rightarrow> ssa_value list \<Rightarrow> ir_state \<Rightarrow> ssa_value list
     \<Rightarrow> fault + (ssa_value list \<times> ir_state)" where
  "inputDimRequiresBroadcasting_loop i e operand rankDiff outputExtents s acc =
     (if i < e then
        (let (inputExtent, s1) = create_DimOp operand i s
         in case at_index outputExtents (rankDiff + i) of
              Inl err \<Rightarrow> Inl err
            | Inr outputExtent \<Rightarrow>
                (let (c, s2) = create_CmpIOp cmp_ne inputExtent outputExtent s1
                 in inputDimRequiresBroadcasting_loop (i + 1) e operand rankDiff outputExtents s2
                      (acc @ [c])))
      else Inr (acc, s))"
  by pat_completeness auto
termination
  by (relation "measure (\<lambda>(i, e, x, rd, oe, s, acc). nat (e - i))") auto

function createLoops_loop ::
  "int \<Rightarrow> int \<Rightarrow> ssa_value \<Rightarrow> ssa_value \<Rightarrow> ssa_value list \<Rightarrow> ir_state \<Rightarrow> ssa_value list
     \<Rightarrow> fault + (ssa_value list \<times> ir_state)" where
  "createLoops_loop i e c0 c1 outputExtents s inductionVariables =
     (if i < e then
        (case at_index outputExtents i of
           Inl err \<Rightarrow> Inl err
         | Inr ub \<Rightarrow>
             (let (iv, s1) = create_ForOp_enter c0 ub c1 s
              in createLoops_loop (i + 1) e c0 c1 outputExtents s1 (inductionVariables @ [iv])))
      else Inr (inductionVariables, s))"
  by pat_completeness auto
termination
  by (relation "measure (\<lambda>(i, e, c0, c1, oe, s, acc). nat (e - i))") auto

function inputIndices_loop ::
  "int \<Rightarrow> int \<Rightarrow> int \<Rightarrow> ssa_value list \<Rightarrow> ssa_value list \<Rightarrow> ir_state \<Rightarrow> ssa_value list
     \<Rightarrow> fault + (ssa_value list \<times> ir_state)" where
  "inputIndices_loop i e rankDiff inputDimRequiresBroadcasting inductionVariables s inputIndices =
     (if i < e then
        (let (c0, s1) = create_ConstantIndexOp 0 s
         in case at_index inputDimRequiresBroadcasting i of
              Inl err \<Rightarrow> Inl err
            | Inr flag \<Rightarrow>
                (case at_index inductionVariables (rankDiff + i) of
                   Inl err \<Rightarrow> Inl err
                 | Inr iv \<Rightarrow>
                     (let (select, s2) = create_SelectOp flag c0 iv s1
                      in inputIndices_loop (i + 1) e rankDiff inputDimRequiresBroadcasting
                           inductionVariables s2 (inputIndices @ [select]))))
      else Inr (inputIndices, s))"
  by pat_completeness auto
termination
  by (relation "measure (\<lambda>(i, e, rd, fl, ivs, s, acc). nat (e - i))") auto

text \<open>
  \<open>oper\<close> is the matched operation and \<open>operands'\<close> the converted operands the driver hands
  to the pattern. \<^verbatim>\<open>op.getType()\<close> is the type of result 0 and \<^verbatim>\<open>op.operand()\<close> is operand 0.
  The block in braces with the \<^verbatim>\<open>InsertionGuard\<close> ends with \<open>restoreInsertionPoint\<close>.
\<close>

definition LowerBroadcastToToLoopsPattern_matchAndRewrite ::
  "operation \<Rightarrow> ssa_value list \<Rightarrow> ir_state \<Rightarrow> fault + (LogicalResult \<times> ir_state)" where
  "LowerBroadcastToToLoopsPattern_matchAndRewrite oper operands' s =
     bindF (at_index (results oper) 0) (\<lambda>res.
     bindF (castRankedTensorType (getType res)) (\<lambda>(resultDims, resultElem).
     bindF (at_index (operands oper) 0) (\<lambda>operand.
     bindF (castRankedTensorType (getType operand)) (\<lambda>(inputDims, inputElem).
     bindF (allocateResults oper s (Some [])) (\<lambda>(resultsOrFailure, resultShapesOut, s1).
       case resultsOrFailure of
         Failed \<Rightarrow> Inr (failure, s1)
       | Succeeded rs \<Rightarrow>
     bindF (at_index rs 0) (\<lambda>resultMemref.
     bindF (at_index (case resultShapesOut of None \<Rightarrow> [] | Some xs \<Rightarrow> xs) 0) (\<lambda>resultShape.
     bindF (at_index operands' 0) (\<lambda>inputMemref.
       let resultRank = int (length resultDims);
           inputRank = int (length inputDims);
           (outputExtents, s2) = outputExtents_loop 0 resultRank resultShape s1 [];
           rankDiff = resultRank - inputRank
       in
     bindF (inputDimRequiresBroadcasting_loop 0 inputRank operand rankDiff outputExtents s2 [])
       (\<lambda>(inputDimRequiresBroadcasting, s3).
       let guard = length (enclosing s3);
           (c0, s4) = create_ConstantIndexOp 0 s3;
           (c1, s5) = create_ConstantIndexOp 1 s4
       in
     bindF (createLoops_loop 0 resultRank c0 c1 outputExtents s5 []) (\<lambda>(inductionVariables, s6).
     bindF (inputIndices_loop 0 inputRank rankDiff inputDimRequiresBroadcasting
              inductionVariables s6 []) (\<lambda>(inputIndices, s7).
     bindF (create_LoadOp inputMemref inputIndices s7) (\<lambda>(load, s8).
       let s9 = create_StoreOp load resultMemref inductionVariables s8;
           s10 = restoreInsertionPoint guard s9
       in Inr (success, replaceOp oper [resultMemref] s10)))))))))))))"

subsection \<open>Matmul\<close>

text \<open>\<^verbatim>\<open>rewriter.getF32FloatAttr(0.0)\<close> is the attribute \<open>FloatAttr (FloatType 32) 0\<close>.\<close>

definition getF32FloatAttr :: "real \<Rightarrow> attribute" where
  "getF32FloatAttr x = FloatAttr (FloatType 32) x"

definition BufferizeMatmulOp_matchAndRewrite ::
  "operation \<Rightarrow> ssa_value list \<Rightarrow> ir_state \<Rightarrow> fault + (LogicalResult \<times> ir_state)" where
  "BufferizeMatmulOp_matchAndRewrite oper operands' s =
     bindF (allocateResults oper s None) (\<lambda>(resultsOrFailure, resultShapesOut, s1).
       case resultsOrFailure of
         Failed \<Rightarrow> Inr (failure, s1)
       | Succeeded rs \<Rightarrow>
           (let (c0, s2) = create_ConstantOp (getF32FloatAttr 0) s1
            in bindF (at_index rs 0) (\<lambda>r0.
                 let s3 = create_FillOp r0 c0 s2;
                     s4 = create_LinalgMatmulOp operands' rs s3
                 in Inr (success, replaceOp oper rs s4))))"

section \<open>The conversion pass\<close>

subsection \<open>Conversion target\<close>

text \<open>
  A \<^verbatim>\<open>ConversionTarget\<close> records a legalization action for single operations and for whole
  dialects; the action of an operation is the one recorded for its name, else the one
  recorded for its dialect, else none (the operation is then neither legal nor illegal).
\<close>

datatype LegalizationAction = Legal | Dynamic | Illegal

record ConversionTarget =
  opActions :: "op_name \<rightharpoonup> LegalizationAction"
  dialectActions :: "dialect \<rightharpoonup> LegalizationAction"

definition emptyTarget :: ConversionTarget where
  "emptyTarget = \<lparr>opActions = Map.empty, dialectActions = Map.empty\<rparr>"

definition addLegalOp :: "op_name \<Rightarrow> ConversionTarget \<Rightarrow> ConversionTarget" where
  "addLegalOp n T = T\<lparr>opActions := (opActions T)(n \<mapsto> Legal)\<rparr>"

definition addIllegalOp :: "op_name \<Rightarrow> ConversionTarget \<Rightarrow> ConversionTarget" where
  "addIllegalOp n T = T\<lparr>opActions := (opActions T)(n \<mapsto> Illegal)\<rparr>"

definition addLegalDialect :: "dialect \<Rightarrow> ConversionTarget \<Rightarrow> ConversionTarget" where
  "addLegalDialect d T = T\<lparr>dialectActions := (dialectActions T)(d \<mapsto> Legal)\<rparr>"

definition getOpAction :: "ConversionTarget \<Rightarrow> op_name \<Rightarrow> LegalizationAction option" where
  "getOpAction T n =
     (case opActions T n of Some a \<Rightarrow> Some a | None \<Rightarrow> dialectActions T (dialectOf n))"

definition isLegal :: "ConversionTarget \<Rightarrow> op \<Rightarrow> bool" where
  "isLegal T x = (getOpAction T (getName x) = Some Legal)"

definition isIllegal :: "ConversionTarget \<Rightarrow> op \<Rightarrow> bool" where
  "isIllegal T x = (getOpAction T (getName x) = Some Illegal)"

subsection \<open>Patterns\<close>

datatype pattern = LowerBroadcastToToLoopsPattern | BufferizeMatmulOp

fun rootName :: "pattern \<Rightarrow> op_name" where
  "rootName LowerBroadcastToToLoopsPattern = tcp_broadcast_to"
| "rootName BufferizeMatmulOp = tcp_matmul"

fun matchAndRewrite ::
  "pattern \<Rightarrow> operation \<Rightarrow> ssa_value list \<Rightarrow> ir_state \<Rightarrow> fault + (LogicalResult \<times> ir_state)" where
  "matchAndRewrite LowerBroadcastToToLoopsPattern oper operands' s =
     LowerBroadcastToToLoopsPattern_matchAndRewrite oper operands' s"
| "matchAndRewrite BufferizeMatmulOp oper operands' s =
     BufferizeMatmulOp_matchAndRewrite oper operands' s"

subsection \<open>Partial conversion\<close>

text \<open>
  \<^verbatim>\<open>applyPartialConversion\<close> belongs to the host framework. It is modelled by its contract:
  every operation of the function, nested ones included, is visited in order; a legal
  operation stays; otherwise the patterns rooted at its name are tried on it, with its
  operands replaced by the values recorded for them; an operation that no pattern
  converts makes the conversion fail when the target marks it illegal, and stays in place
  when the target says nothing about it. At the end the uses of every replaced result are
  rebound to the replacement. The casts the framework materializes between a tensor and
  its memref are not part of the model.
\<close>

definition lookupOrDefault :: "(operation \<times> ssa_value list) list \<Rightarrow> ssa_value \<Rightarrow> ssa_value" where
  "lookupOrDefault reps v =
     (case map_of (concat (map (\<lambda>(old, vals). zip (results old) vals) reps)) v of
        None \<Rightarrow> v
      | Some v' \<Rightarrow> v')"

fun tryPatterns ::
  "pattern list \<Rightarrow> operation \<Rightarrow> ssa_value list \<Rightarrow> ir_state \<Rightarrow> fault + (LogicalResult \<times> ir_state)" where
  "tryPatterns [] oper operands' s = Inr (failure, s)"
| "tryPatterns (p # ps) oper operands' s =
     (if rootName p = opName oper then
        (case matchAndRewrite p oper operands' s of
           Inl e \<Rightarrow> Inl e
         | Inr (success, s') \<Rightarrow> Inr (success, s')
         | Inr (failure, s') \<Rightarrow> tryPatterns ps oper operands' s)
      else tryPatterns ps oper operands' s)"

fun convert_op ::
  "ConversionTarget \<Rightarrow> pattern list \<Rightarrow> op \<Rightarrow> ir_state \<Rightarrow> fault + (LogicalResult \<times> ir_state)"
and convert_block ::
  "ConversionTarget \<Rightarrow> pattern list \<Rightarrow> op list \<Rightarrow> ir_state \<Rightarrow> fault + (LogicalResult \<times> ir_state)"
where
  "convert_op T ps (GenericOp g) s =
     (if isLegal T (GenericOp g) then Inr (success, insertOp (GenericOp g) s)
      else
        (case tryPatterns ps g (map (lookupOrDefault (replacements s)) (operands g)) s of
           Inl e \<Rightarrow> Inl e
         | Inr (success, s') \<Rightarrow> Inr (success, s')
         | Inr (failure, s') \<Rightarrow>
             (if isIllegal T (GenericOp g) then Inr (failure, s)
              else Inr (success, insertOp (GenericOp g) s))))"
| "convert_op T ps (ForOp lb ub st iv body) s =
     (if isIllegal T (ForOp lb ub st iv body) then Inr (failure, s)
      else
        (case convert_block T ps body (s\<lparr>block := []\<rparr>) of
           Inl e \<Rightarrow> Inl e
         | Inr (failure, s') \<Rightarrow> Inr (failure, s')
         | Inr (success, s') \<Rightarrow>
             Inr (success, s'\<lparr>block := block s @ [ForOp lb ub st iv (block s')]\<rparr>)))"
| "convert_op T ps x s =
     (if isIllegal T x then Inr (failure, s) else Inr (success, insertOp x s))"
| "convert_block T ps [] s = Inr (success, s)"
| "convert_block T ps (x # xs) s =
     (case convert_op T ps x s of
        Inl e \<Rightarrow> Inl e
      | Inr (failure, s') \<Rightarrow> Inr (failure, s')
      | Inr (success, s') \<Rightarrow> convert_block T ps xs s')"

fun rebind :: "(ssa_value \<Rightarrow> ssa_value) \<Rightarrow> op \<Rightarrow> op" where
  "rebind f (ConstantIndexOp r n) = ConstantIndexOp r n"
| "rebind f (ConstantOp r a) = ConstantOp r a"
| "rebind f (DimOp r v i) = DimOp r (f v) i"
| "rebind f (GetExtentOp r sh d) = GetExtentOp r (f sh) (f d)"
| "rebind f (CmpIOp r p a b) = CmpIOp r p (f a) (f b)"
| "rebind f (SelectOp r c a b) = SelectOp r (f c) (f a) (f b)"
| "rebind f (LoadOp r m idx) = LoadOp r (f m) (map f idx)"
| "rebind f (StoreOp v m idx) = StoreOp (f v) (f m) (map f idx)"
| "rebind f (TensorFromElementsOp r es) = TensorFromElementsOp r (map f es)"
| "rebind f (AllocMemRefOp r sh) = AllocMemRefOp r (f sh)"
| "rebind f (FillOp out v) = FillOp (f out) (f v)"
| "rebind f (LinalgMatmulOp ins outs) = LinalgMatmulOp (map f ins) (map f outs)"
| "rebind f (ForOp lb ub st iv body) = ForOp (f lb) (f ub) (f st) iv (map (rebind f) body)"
| "rebind f (GenericOp g) = GenericOp (g\<lparr>operands := map f (operands g)\<rparr>)"

text \<open>A function: its body and the number from which new SSA values are taken.\<close>

record func_op =
  funcBody :: "op list"
  funcNextValue :: nat

definition applyPartialConversion ::
  "func_op \<Rightarrow> ConversionTarget \<Rightarrow> pattern list \<Rightarrow> fault + (LogicalResult \<times> func_op)" where
  "applyPartialConversion func T ps =
     (case convert_block T ps (funcBody func)
             \<lparr>nextValue = funcNextValue func, block = [], enclosing = [], replacements = []\<rparr> of
        Inl e \<Rightarrow> Inl e
      | Inr (failure, s) \<Rightarrow> Inr (failure, func)
      | Inr (success, s) \<Rightarrow>
          Inr (success,
               \<lparr>funcBody = map (rebind (lookupOrDefault (replacements s))) (block s),
                funcNextValue = nextValue s\<rparr>))"

subsection \<open>The pass\<close>

text \<open>The target and the pattern list, built in the order of \<^verbatim>\<open>runOnOperation\<close>.\<close>

definition bufferizeTarget :: ConversionTarget where
  "bufferizeTarget =
     addLegalOp shape_get_extent
       (addLegalDialect SCF
         (addLegalDialect StandardOps
           (addLegalDialect Linalg
             (addIllegalOp tcp_matmul
               (addIllegalOp tcp_broadcast_to
                 (addLegalOp refback_alloc_memref emptyTarget))))))"

definition bufferizePatterns :: "pattern list" where
  "bufferizePatterns = [LowerBroadcastToToLoopsPattern, BufferizeMatmulOp]"

datatype pass_result = PassFailure | PassSuccess func_op

definition runOnOperation :: "func_op \<Rightarrow> fault + pass_result" where
  "runOnOperation func =
     (case applyPartialConversion func bufferizeTarget bufferizePatterns of
        Inl e \<Rightarrow> Inl e
      | Inr (failure, f) \<Rightarrow> Inr PassFailure
      | Inr (success, f) \<Rightarrow> Inr (PassSuccess f))"

section \<open>Meaning of the generated operations\<close>

text \<open>
  What the created operations compute when they run. An SSA value is bound to an index,
  a boolean, an element, a shape (the extent tensor), a tensor (its extents and elements)
  or a memref (the number of a buffer in the store). A buffer has extents and cells; a
  cell holds nothing until it is stored to. A load or store outside the extents, a read of
  an unbound value, and a read of an empty cell are faults. The numeric kernels
  (\<^verbatim>\<open>linalg.fill\<close>, \<^verbatim>\<open>linalg.matmul\<close>), element constants and the operations of other dialects
  have no meaning here (\<open>NoSemantics\<close>).
\<close>

record 'e buffer =
  extents :: "int list"
  cells :: "int list \<rightharpoonup> 'e"

datatype 'e rtval =
    IndexVal int
  | BoolVal bool
  | ElemVal 'e
  | ShapeVal "int list"
  | TensorVal "int list" "int list \<Rightarrow> 'e option"
  | MemRefVal nat

datatype rt_fault = UnboundValue | WrongKind | OutOfBounds | Uninitialized | BadStep | BadShape | NoSemantics

record 'e rt_state =
  env :: "ssa_value \<rightharpoonup> 'e rtval"
  store :: "nat \<rightharpoonup> 'e buffer"
  nextBuffer :: nat

definition bindValue :: "ssa_value \<Rightarrow> 'e rtval \<Rightarrow> 'e rt_state \<Rightarrow> 'e rt_state" where
  "bindValue v x t = t\<lparr>env := (env t)(v \<mapsto> x)\<rparr>"

definition inBounds :: "int list \<Rightarrow> int list \<Rightarrow> bool" where
  "inBounds ext idx = list_all2 (\<lambda>i e. 0 \<le> i \<and> i < e) idx ext"

definition getIndex :: "'e rt_state \<Rightarrow> ssa_value \<Rightarrow> rt_fault + int" where
  "getIndex t v =
     (case env t v of
        None \<Rightarrow> Inl UnboundValue
      | Some (IndexVal n) \<Rightarrow> Inr n
      | Some _ \<Rightarrow> Inl WrongKind)"

fun getIndices :: "'e rt_state \<Rightarrow> ssa_value list \<Rightarrow> rt_fault + int list" where
  "getIndices t [] = Inr []"
| "getIndices t (v # vs) =
     (case getIndex t v of
        Inl e \<Rightarrow> Inl e
      | Inr n \<Rightarrow> (case getIndices t vs of Inl e \<Rightarrow> Inl e | Inr ns \<Rightarrow> Inr (n # ns)))"

definition getBuffer :: "'e rt_state \<Rightarrow> ssa_value \<Rightarrow> rt_fault + (nat \<times> 'e buffer)" where
  "getBuffer t v =
     (case env t v of
        None \<Rightarrow> Inl UnboundValue
      | Some (MemRefVal b) \<Rightarrow>
          (case store t b of None \<Rightarrow> Inl UnboundValue | Some buf \<Rightarrow> Inr (b, buf))
      | Some _ \<Rightarrow> Inl WrongKind)"

definition extentsOf :: "'e rt_state \<Rightarrow> ssa_value \<Rightarrow> rt_fault + int list" where
  "extentsOf t v =
     (case env t v of
        None \<Rightarrow> Inl UnboundValue
      | Some (TensorVal ext c) \<Rightarrow> Inr ext
      | Some (ShapeVal xs) \<Rightarrow> Inr [int (length xs)]
      | Some (MemRefVal b) \<Rightarrow>
          (case store t b of None \<Rightarrow> Inl UnboundValue | Some buf \<Rightarrow> Inr (extents buf))
      | Some _ \<Rightarrow> Inl WrongKind)"

fun evalCmpI :: "CmpIPredicate \<Rightarrow> int \<Rightarrow> int \<Rightarrow> bool" where
  "evalCmpI cmp_eq a b = (a = b)"
| "evalCmpI cmp_ne a b = (a \<noteq> b)"
| "evalCmpI cmp_slt a b = (a < b)"
| "evalCmpI cmp_sle a b = (a \<le> b)"
| "evalCmpI cmp_sgt a b = (a > b)"
| "evalCmpI cmp_sge a b = (a \<ge> b)"

definition tripCount :: "int \<Rightarrow> int \<Rightarrow> int \<Rightarrow> nat" where
  "tripCount lb ub st = (if lb < ub then nat ((ub - lb + st - 1) div st) else 0)"

text \<open>An allocated memref takes each static extent from its type and each dynamic one
  (\<open>-1\<close>) from the shape operand.\<close>

definition allocExtents :: "int list \<Rightarrow> int list \<Rightarrow> int list" where
  "allocExtents dims xs = map (\<lambda>(d, x). if d = -1 then x else d) (zip dims xs)"

fun exec_simple :: "op \<Rightarrow> 'e rt_state \<Rightarrow> rt_fault + 'e rt_state" where
  "exec_simple (ConstantIndexOp r n) t = Inr (bindValue r (IndexVal n) t)"
| "exec_simple (DimOp r v i) t =
     bindF (extentsOf t v) (\<lambda>ext.
       if 0 \<le> i \<and> i < int (length ext) then Inr (bindValue r (IndexVal (ext ! nat i)) t)
       else Inl OutOfBounds)"
| "exec_simple (GetExtentOp r sh d) t =
     (case env t sh of
        None \<Rightarrow> Inl UnboundValue
      | Some (ShapeVal xs) \<Rightarrow>
          bindF (getIndex t d) (\<lambda>k.
            if 0 \<le> k \<and> k < int (length xs) then Inr (bindValue r (IndexVal (xs ! nat k)) t)
            else Inl OutOfBounds)
      | Some _ \<Rightarrow> Inl WrongKind)"
| "exec_simple (CmpIOp r p a b) t =
     bindF (getIndex t a) (\<lambda>x.
     bindF (getIndex t b) (\<lambda>y. Inr (bindValue r (BoolVal (evalCmpI p x y)) t)))"
| "exec_simple (SelectOp r c a b) t =
     (case env t c of
        None \<Rightarrow> Inl UnboundValue
      | Some (BoolVal f) \<Rightarrow>
          (case (env t a, env t b) of
             (Some x, Some y) \<Rightarrow> Inr (bindValue r (if f then x else y) t)
           | _ \<Rightarrow> Inl UnboundValue)
      | Some _ \<Rightarrow> Inl WrongKind)"
| "exec_simple (LoadOp r m idx) t =
     bindF (getBuffer t m) (\<lambda>(b, buf).
     bindF (getIndices t idx) (\<lambda>is.
       if inBounds (extents buf) is then
         (case cells buf is of
            None \<Rightarrow> Inl Uninitialized
          | Some x \<Rightarrow> Inr (bindValue r (ElemVal x) t))
       else Inl OutOfBounds))"
| "exec_simple (StoreOp v m idx) t =
     (case env t v of
        None \<Rightarrow> Inl UnboundValue
      | Some (ElemVal x) \<Rightarrow>
          bindF (getBuffer t m) (\<lambda>(b, buf).
          bindF (getIndices t idx) (\<lambda>is.
            if inBounds (extents buf) is then
              Inr (t\<lparr>store := (store t)(b \<mapsto> buf\<lparr>cells := (cells buf)(is \<mapsto> x)\<rparr>)\<rparr>)
            else Inl OutOfBounds))
      | Some _ \<Rightarrow> Inl WrongKind)"
| "exec_simple (TensorFromElementsOp r es) t =
     bindF (getIndices t es) (\<lambda>xs. Inr (bindValue r (ShapeVal xs) t))"
| "exec_simple (AllocMemRefOp r sh) t =
     (case env t sh of
        None \<Rightarrow> Inl UnboundValue
      | Some (ShapeVal xs) \<Rightarrow>
          (case getType r of
             MemRefType dims et \<Rightarrow>
               (if length dims = length xs \<and> (\<forall>e \<in> set (allocExtents dims xs). 0 \<le> e) then
                  Inr (t\<lparr>env := (env t)(r \<mapsto> MemRefVal (nextBuffer t)),
                         store := (store t)(nextBuffer t \<mapsto>
                                    \<lparr>extents = allocExtents dims xs, cells = Map.empty\<rparr>),
                         nextBuffer := Suc (nextBuffer t)\<rparr>)
                else Inl BadShape)
           | _ \<Rightarrow> Inl WrongKind)
      | Some _ \<Rightarrow> Inl WrongKind)"
| "exec_simple x t = Inl NoSemantics"

text \<open>\<^verbatim>\<open>scf.for\<close> runs its body once for each value \<open>lb, lb + step, ...\<close> below \<open>ub\<close>, the
  induction variable bound to it; the step must be positive.\<close>

fun exec_op :: "op \<Rightarrow> 'e rt_state \<Rightarrow> rt_fault + 'e rt_state"
and exec_block :: "op list \<Rightarrow> 'e rt_state \<Rightarrow> rt_fault + 'e rt_state"
and exec_iters :: "op list \<Rightarrow> ssa_value \<Rightarrow> int \<Rightarrow> nat \<Rightarrow> int \<Rightarrow> 'e rt_state \<Rightarrow> rt_fault + 'e rt_state"
where
  "exec_op (ForOp lb ub st iv body) t =
     (case getIndex t lb of
        Inl e \<Rightarrow> Inl e
      | Inr l \<Rightarrow>
          (case getIndex t ub of
             Inl e \<Rightarrow> Inl e
           | Inr u \<Rightarrow>
               (case getIndex t st of
                  Inl e \<Rightarrow> Inl e
                | Inr stp \<Rightarrow>
                    (if stp \<le> 0 then Inl BadStep
                     else exec_iters body iv stp (tripCount l u stp) l t))))"
| "exec_op x t = exec_simple x t"
| "exec_block [] t = Inr t"
| "exec_block (x # xs) t =
     (case exec_op x t of Inl e \<Rightarrow> Inl e | Inr t' \<Rightarrow> exec_block xs t')"
| "exec_iters body iv stp 0 i t = Inr t"
| "exec_iters body iv stp (Suc n) i t =
     (case exec_block body (bindValue iv (IndexVal i) t) of
        Inl e \<Rightarrow> Inl e
      | Inr t' \<Rightarrow> exec_iters body iv stp n (i + stp) t')"

text \<open>The input index the broadcast reads for output index \<open>j\<close>: \<open>0\<close> where the input
  extent differs from the aligned output extent, else the aligned component of \<open>j\<close>.\<close>

definition broadcastIndex :: "int list \<Rightarrow> int list \<Rightarrow> int list \<Rightarrow> int list" where
  "broadcastIndex inExt outExt j =
     map (\<lambda>k. if inExt ! k \<noteq> outExt ! (length outExt - length inExt + k) then 0
              else j ! (length outExt - length inExt + k))
         [0..<length inExt]"

section \<open>The generated code in closed form\<close>

text \<open>
  The values and operations the four loops of the broadcast pattern create, written as
  functions of the first unused value number: \<open>stridedValues\<close> and \<open>consecutiveValues\<close> are
  the result vectors, \<open>extentOps\<close>, \<open>flagOps\<close> and \<open>selectOps\<close> the operations of the loops
  that create no region, \<open>loopNest\<close> the nested \<^verbatim>\<open>scf.for\<close> operations, and \<open>loopFrames\<close> and
  \<open>closeFrames\<close> the builder's stack of entered loops and what leaving them builds.
  \<open>covered oext k J j\<close> says that the output index \<open>j\<close> starts with \<open>J\<close> (the values of the \<open>k\<close>
  outer induction variables) and is within the extents \<open>oext\<close> from position \<open>k\<close> on.
\<close>

fun stridedValues :: "mtype \<Rightarrow> nat \<Rightarrow> nat \<Rightarrow> ssa_value list" where
  "stridedValues ty n 0 = []"
| "stridedValues ty n (Suc m) = Value (Suc n) ty # stridedValues ty (Suc (Suc n)) m"

fun consecutiveValues :: "nat \<Rightarrow> nat \<Rightarrow> ssa_value list" where
  "consecutiveValues n 0 = []"
| "consecutiveValues n (Suc m) = Value n IndexType # consecutiveValues (Suc n) m"

fun extentOps :: "nat \<Rightarrow> ssa_value \<Rightarrow> int \<Rightarrow> nat \<Rightarrow> op list" where
  "extentOps n sh i 0 = []"
| "extentOps n sh i (Suc m) =
     ConstantIndexOp (Value n IndexType) i #
     GetExtentOp (Value (Suc n) IndexType) sh (Value n IndexType) #
     extentOps (Suc (Suc n)) sh (i + 1) m"

fun flagOps :: "nat \<Rightarrow> ssa_value \<Rightarrow> ssa_value list \<Rightarrow> nat \<Rightarrow> int \<Rightarrow> nat \<Rightarrow> op list" where
  "flagOps n x oe k i 0 = []"
| "flagOps n x oe k i (Suc m) =
     DimOp (Value n IndexType) x i #
     CmpIOp (Value (Suc n) (IntegerType 1)) cmp_ne (Value n IndexType) (oe ! k) #
     flagOps (Suc (Suc n)) x oe (Suc k) (i + 1) m"

fun selectOps :: "nat \<Rightarrow> ssa_value list \<Rightarrow> ssa_value list \<Rightarrow> nat \<Rightarrow> nat \<Rightarrow> nat \<Rightarrow> op list" where
  "selectOps n fl ivs k i 0 = []"
| "selectOps n fl ivs k i (Suc m) =
     ConstantIndexOp (Value n IndexType) 0 #
     SelectOp (Value (Suc n) IndexType) (fl ! i) (Value n IndexType) (ivs ! k) #
     selectOps (Suc (Suc n)) fl ivs (Suc k) (Suc i) m"

fun loopNest :: "ssa_value \<Rightarrow> ssa_value \<Rightarrow> (ssa_value \<times> ssa_value) list \<Rightarrow> op list \<Rightarrow> op list" where
  "loopNest c0 c1 [] body = body"
| "loopNest c0 c1 ((ub, iv) # hs) body = [ForOp c0 ub c1 iv (loopNest c0 c1 hs body)]"

fun loopFrames ::
  "op list \<Rightarrow> ssa_value \<Rightarrow> ssa_value \<Rightarrow> (ssa_value \<times> ssa_value) list \<Rightarrow>
     (op list \<times> ssa_value \<times> ssa_value \<times> ssa_value \<times> ssa_value) list" where
  "loopFrames pre c0 c1 [] = []"
| "loopFrames pre c0 c1 ((ub, iv) # hs) = (pre, c0, ub, c1, iv) # loopFrames [] c0 c1 hs"

fun closeFrames ::
  "(op list \<times> ssa_value \<times> ssa_value \<times> ssa_value \<times> ssa_value) list \<Rightarrow> op list \<Rightarrow> op list" where
  "closeFrames [] body = body"
| "closeFrames ((outer, lb, ub, st, iv) # fs) body = closeFrames fs (outer @ [ForOp lb ub st iv body])"


definition broadcastBody ::
  "nat \<Rightarrow> ssa_value \<Rightarrow> ssa_value \<Rightarrow> mtype \<Rightarrow> ssa_value list \<Rightarrow> ssa_value list \<Rightarrow> nat \<Rightarrow> nat \<Rightarrow> op list" where
  "broadcastBody tb m buf met fl ivs R Q =
     selectOps tb fl ivs (R - Q) 0 Q @
     [LoadOp (Value (tb + 2 * Q) met) m (stridedValues IndexType tb Q),
      StoreOp (Value (tb + 2 * Q) met) buf ivs]"

definition broadcastCode ::
  "nat \<Rightarrow> ssa_value \<Rightarrow> ssa_value \<Rightarrow> ssa_value \<Rightarrow> int list \<Rightarrow> mtype \<Rightarrow> mtype \<Rightarrow> nat \<Rightarrow> op list" where
  "broadcastCode n x shp m rdims et met Q =
     (let R = length rdims;
          buf = Value n (MemRefType rdims et);
          oe = stridedValues IndexType (Suc n) R;
          fl = stridedValues (IntegerType 1) (Suc n + 2 * R) Q;
          c0 = Value (Suc n + 2 * R + 2 * Q) IndexType;
          c1 = Value (Suc (Suc n) + 2 * R + 2 * Q) IndexType;
          ivb = Suc (Suc (Suc n)) + 2 * R + 2 * Q;
          ivs = consecutiveValues ivb R
      in AllocMemRefOp buf shp #
         extentOps (Suc n) shp 0 R @
         flagOps (Suc n + 2 * R) x oe (R - Q) 0 Q @
         [ConstantIndexOp c0 0, ConstantIndexOp c1 1] @
         loopNest c0 c1 (zip oe ivs) (broadcastBody (ivb + R) m buf met fl ivs R Q))"


definition covered :: "int list \<Rightarrow> nat \<Rightarrow> int list \<Rightarrow> int list \<Rightarrow> bool" where
  "covered oext k J j \<longleftrightarrow>
     length j = length oext \<and> take k j = J \<and>
     (\<forall>q. k \<le> q \<and> q < length oext \<longrightarrow> 0 \<le> j ! q \<and> j ! q < oext ! q)"


text \<open>The operations of a block with the ones nested in its loops.\<close>

fun nestedOps :: "op \<Rightarrow> op list" where
  "nestedOps (ForOp lb ub st iv body) = ForOp lb ub st iv body # concat (map nestedOps body)"
| "nestedOps x = [x]"

definition allOps :: "op list \<Rightarrow> op list" where
  "allOps xs = concat (map nestedOps xs)"

text \<open>A block none of whose operations, nested ones included, is illegal for the target of
  the pass; and a builder state whose current block and whose suspended enclosing blocks
  are such blocks.\<close>

definition noIllegal :: "op list \<Rightarrow> bool" where
  "noIllegal xs \<longleftrightarrow> (\<forall>y \<in> set (allOps xs). \<not> isIllegal bufferizeTarget y)"

definition stateLegalized :: "ir_state \<Rightarrow> bool" where
  "stateLegalized s \<longleftrightarrow> noIllegal (block s) \<and> (\<forall>f \<in> set (enclosing s). noIllegal (fst f))"

section \<open>Example inputs\<close>

text \<open>The broadcast of the end-to-end scenario: an input of shape \<open>[1,3]\<close> broadcast to the
  shape \<open>[2,3]\<close>; a matmul on \<open>f64\<close> tensors; and an operation of a kind the pass has no
  pattern for.\<close>

definition ex_state :: ir_state where
  "ex_state = \<lparr>nextValue = 10, block = [], enclosing = [], replacements = []\<rparr>"

definition ex_broadcast :: operation where
  "ex_broadcast =
     \<lparr>opName = tcp_broadcast_to,
      operands = [Value 0 (RankedTensorType [1, 3] (FloatType 32)),
                  Value 1 (RankedTensorType [2] IndexType)],
      results = [Value 2 (RankedTensorType [-1, -1] (FloatType 32))]\<rparr>"

definition ex_matmul :: operation where
  "ex_matmul =
     \<lparr>opName = tcp_matmul,
      operands = [Value 0 (RankedTensorType [-1, -1] (FloatType 64)),
                  Value 1 (RankedTensorType [-1, -1] (FloatType 64))],
      results = [Value 2 (RankedTensorType [-1, -1] (FloatType 64))]\<rparr>"

definition ex_add :: operation where
  "ex_add =
     \<lparr>opName = OpName TCP ''add'',
      operands = [Value 0 (RankedTensorType [-1] (FloatType 32)),
                  Value 1 (RankedTensorType [-1] (FloatType 32))],
      results = [Value 2 (RankedTensorType [-1] (FloatType 32))]\<rparr>"


text \<open>A run-time state in which the operands of \<open>ex_matmul\<close> are a \<open>4 x 5\<close> and a \<open>5 x 6\<close>
  tensor.\<close>

definition ex_rt_matmul :: "int rt_state" where
  "ex_rt_matmul =
     \<lparr>env = [Value 0 (RankedTensorType [-1, -1] (FloatType 64)) \<mapsto> TensorVal [4, 5] (\<lambda>i. None),
             Value 1 (RankedTensorType [-1, -1] (FloatType 64)) \<mapsto> TensorVal [5, 6] (\<lambda>i. None)],
      store = Map.empty, nextBuffer = 0\<rparr>"

text \<open>A broadcast of an input of extent \<open>0\<close> to the shape \<open>[3]\<close>, with the run-time state in
  which it runs, and the run-time state for \<open>ex_broadcast\<close>: the input buffer holds
  \<open>100 + i\<close> at \<open>[0, i]\<close>.\<close>

definition ex_broadcast_empty :: operation where
  "ex_broadcast_empty =
     \<lparr>opName = tcp_broadcast_to,
      operands = [Value 0 (RankedTensorType [0] (FloatType 32)),
                  Value 1 (RankedTensorType [1] IndexType)],
      results = [Value 2 (RankedTensorType [-1] (FloatType 32))]\<rparr>"

definition ex_rt_empty :: "int rt_state" where
  "ex_rt_empty =
     \<lparr>env = [Value 0 (RankedTensorType [0] (FloatType 32)) \<mapsto> TensorVal [0] (\<lambda>i. None),
             Value 1 (RankedTensorType [1] IndexType) \<mapsto> ShapeVal [3],
             Value 3 (MemRefType [0] (FloatType 32)) \<mapsto> MemRefVal 0],
      store = [0 \<mapsto> \<lparr>extents = [0], cells = Map.empty\<rparr>],
      nextBuffer = 1\<rparr>"

definition ex_rt_broadcast :: "int rt_state" where
  "ex_rt_broadcast =
     \<lparr>env = [Value 0 (RankedTensorType [1, 3] (FloatType 32)) \<mapsto>
               TensorVal [1, 3] (\<lambda>i. if inBounds [1, 3] i then Some (100 + i ! 1) else None),
             Value 1 (RankedTensorType [2] IndexType) \<mapsto> ShapeVal [2, 3],
             Value 3 (MemRefType [1, 3] (FloatType 32)) \<mapsto> MemRefVal 0],
      store = [0 \<mapsto> \<lparr>extents = [1, 3],
                       cells = (\<lambda>i. if inBounds [1, 3] i then Some (100 + i ! 1) else None)\<rparr>],
      nextBuffer = 1\<rparr>"


text \<open>A function that is already on buffers.\<close>

definition ex_legal_func :: func_op where
  "ex_legal_func =
     \<lparr>funcBody =
        [ConstantIndexOp (Value 2 IndexType) 0,
         ConstantIndexOp (Value 3 IndexType) 1,
         DimOp (Value 4 IndexType) (Value 0 (MemRefType [-1] (FloatType 32))) 0,
         ForOp (Value 2 IndexType) (Value 4 IndexType) (Value 3 IndexType) (Value 5 IndexType)
           [LoadOp (Value 6 (FloatType 32)) (Value 0 (MemRefType [-1] (FloatType 32))) [Value 5 IndexType],
            StoreOp (Value 6 (FloatType 32)) (Value 1 (MemRefType [-1] (FloatType 32))) [Value 5 IndexType]]],
      funcNextValue = 7\<rparr>"

text \<open>A function that holds \<open>ex_matmul\<close> alone, and the function the pass makes of it.\<close>

definition ex_matmul_func :: func_op where
  "ex_matmul_func = \<lparr>funcBody = [GenericOp ex_matmul], funcNextValue = 3\<rparr>"

definition ex_matmul_func_converted :: func_op where
  "ex_matmul_func_converted =
     \<lparr>funcBody =
        [DimOp (Value 3 IndexType) (Value 0 (RankedTensorType [-1, -1] (FloatType 64))) 0,
         DimOp (Value 4 IndexType) (Value 1 (RankedTensorType [-1, -1] (FloatType 64))) 1,
         TensorFromElementsOp (Value 5 (RankedTensorType [2] IndexType))
           [Value 3 IndexType, Value 4 IndexType],
         AllocMemRefOp (Value 6 (MemRefType [-1, -1] (FloatType 64)))
           (Value 5 (RankedTensorType [2] IndexType)),
         ConstantOp (Value 7 (FloatType 32)) (FloatAttr (FloatType 32) 0),
         FillOp (Value 6 (MemRefType [-1, -1] (FloatType 64))) (Value 7 (FloatType 32)),
         LinalgMatmulOp
           [Value 0 (RankedTensorType [-1, -1] (FloatType 64)),
            Value 1 (RankedTensorType [-1, -1] (FloatType 64))]
           [Value 6 (MemRefType [-1, -1] (FloatType 64))]],
      funcNextValue = 8\<rparr>"

section \<open>Basic facts\<close>

declare outputExtents_loop.simps [simp del]
declare inputDimRequiresBroadcasting_loop.simps [simp del]
declare createLoops_loop.simps [simp del]
declare inputIndices_loop.simps [simp del]
declare restoreInsertionPoint.simps [simp del]

lemma bindF_eq_InrE:
  assumes "bindF m k = Inr y"
  obtains x where "m = Inr x" "k x = Inr y"
  using assms by (cases m) (auto simp: bindF_def)

lemma tcp_names_distinct [simp]: "tcp_broadcast_to \<noteq> tcp_matmul" "tcp_matmul \<noteq> tcp_broadcast_to"
  by (simp_all add: tcp_broadcast_to_def tcp_matmul_def)

lemma fresh_neq: "valueId v < n \<Longrightarrow> Value n ty \<noteq> v"
  by (cases v) auto

lemma fresh_neq': "valueId v < n \<Longrightarrow> v \<noteq> Value n ty"
  by (cases v) auto

lemma extentsOf_bindValue_index [simp]:
  "v \<noteq> r \<Longrightarrow> extentsOf (bindValue r x t) v = extentsOf t v"
  by (simp add: extentsOf_def bindValue_def split: option.splits rtval.splits)

lemma getIndex_bindValue_same [simp]: "getIndex (bindValue r (IndexVal n) t) r = Inr n"
  by (simp add: getIndex_def bindValue_def)

lemma getIndex_bindValue_other [simp]: "v \<noteq> r \<Longrightarrow> getIndex (bindValue r x t) v = getIndex t v"
  by (simp add: getIndex_def bindValue_def)

lemma exec_block_append:
  "exec_block (xs @ ys) t = (case exec_block xs t of Inl e \<Rightarrow> Inl e | Inr t' \<Rightarrow> exec_block ys t')"
  by (induction xs arbitrary: t) (auto split: sum.splits)

lemma bindF_Inl [simp]: "bindF (Inl e) k = Inl e"
  by (simp add: bindF_def)

lemma bindF_Inr [simp]: "bindF (Inr x) k = k x"
  by (simp add: bindF_def)

lemma at_index_Nil [simp]: "at_index [] i = Inl IndexOutOfRange"
  by (simp add: at_index_def)

lemma at_index_Cons_0 [simp]: "at_index (x # xs) 0 = Inr x"
  by (simp add: at_index_def)

lemma at_index_Cons_1 [simp]: "at_index (x # y # xs) 1 = Inr y"
  by (simp add: at_index_def)

lemma at_index_in_range: "0 \<le> i \<Longrightarrow> i < int (length xs) \<Longrightarrow> at_index xs i = Inr (xs ! nat i)"
  by (simp add: at_index_def)

lemma create_AllocMemRefOp_eq:
  "create_AllocMemRefOp ty sh s =
     (Value (nextValue s) ty,
      s\<lparr>nextValue := Suc (nextValue s), block := block s @ [AllocMemRefOp (Value (nextValue s) ty) sh]\<rparr>)"
  by (simp add: create_AllocMemRefOp_def newValue_def insertOp_def)

lemma create_DimOp_eq:
  "create_DimOp v i s =
     (Value (nextValue s) IndexType,
      s\<lparr>nextValue := Suc (nextValue s), block := block s @ [DimOp (Value (nextValue s) IndexType) v i]\<rparr>)"
  by (simp add: create_DimOp_def newValue_def insertOp_def)

lemma create_TensorFromElementsOp_eq:
  "create_TensorFromElementsOp (e0 # es) s =
     Inr (Value (nextValue s) (RankedTensorType [int (length (e0 # es))] (getType e0)),
          s\<lparr>nextValue := Suc (nextValue s),
            block := block s @ [TensorFromElementsOp
               (Value (nextValue s) (RankedTensorType [int (length (e0 # es))] (getType e0))) (e0 # es)]\<rparr>)"
  by (simp add: create_TensorFromElementsOp_def newValue_def insertOp_def)

section \<open>The shape resolver and the allocator\<close>

lemma bypassResultShapes_broadcast:
  "opName oper = tcp_broadcast_to \<Longrightarrow> operands oper = x # sh # rest \<Longrightarrow>
   bypassResultShapes oper s = Inr ([sh], s)"
  by (simp add: bypassResultShapes_def)

lemma bypassResultShapes_matmul:
  "opName oper = tcp_matmul \<Longrightarrow> operands oper = lhs # rhs # rest \<Longrightarrow>
   bypassResultShapes oper s =
     Inr ([Value (nextValue s + 2) (RankedTensorType [2] IndexType)],
          s\<lparr>nextValue := nextValue s + 3,
            block := block s @
              [DimOp (Value (nextValue s) IndexType) lhs 0,
               DimOp (Value (nextValue s + 1) IndexType) rhs 1,
               TensorFromElementsOp (Value (nextValue s + 2) (RankedTensorType [2] IndexType))
                 [Value (nextValue s) IndexType, Value (nextValue s + 1) IndexType]]\<rparr>)"
  by (simp add: bypassResultShapes_def tcp_matmul_def tcp_broadcast_to_def create_DimOp_eq
      create_TensorFromElementsOp_eq)


lemma allocateResults_loop_spec:
  assumes "\<forall>r \<in> set (take (length shs) rs). \<exists>dims et. getType r = RankedTensorType dims et"
  shows "\<exists>bufs new s'.
           allocateResults_loop rs shs s acc = Inr (acc @ bufs, s') \<and>
           length bufs = min (length rs) (length shs) \<and>
           length new = length bufs \<and>
           s' = s\<lparr>nextValue := nextValue s + length bufs, block := block s @ new\<rparr> \<and>
           (\<forall>k < length bufs. \<exists>dims et.
               getType (rs ! k) = RankedTensorType dims et \<and>
               bufs ! k = Value (nextValue s + k) (MemRefType dims et) \<and>
               new ! k = AllocMemRefOp (bufs ! k) (shs ! k))"
  using assms
proof (induction rs shs s acc rule: allocateResults_loop.induct)
  case (1 result rs resultShape shs s acc)
  from "1.prems" obtain dims et where ty: "getType result = RankedTensorType dims et"
    by auto
  let ?m = "Value (nextValue s) (MemRefType dims et)"
  let ?s1 = "s\<lparr>nextValue := Suc (nextValue s), block := block s @ [AllocMemRefOp ?m resultShape]\<rparr>"
  have rest: "\<forall>r \<in> set (take (length shs) rs). \<exists>dims et. getType r = RankedTensorType dims et"
    using "1.prems" by auto
  have "\<exists>bufs new s'.
           allocateResults_loop rs shs ?s1 (acc @ [?m]) = Inr ((acc @ [?m]) @ bufs, s') \<and>
           length bufs = min (length rs) (length shs) \<and>
           length new = length bufs \<and>
           s' = ?s1\<lparr>nextValue := nextValue ?s1 + length bufs, block := block ?s1 @ new\<rparr> \<and>
           (\<forall>k < length bufs. \<exists>dims et.
               getType (rs ! k) = RankedTensorType dims et \<and>
               bufs ! k = Value (nextValue ?s1 + k) (MemRefType dims et) \<and>
               new ! k = AllocMemRefOp (bufs ! k) (shs ! k))"
    using "1.IH"[of "(dims, et)" dims et "MemRefType dims et" "(?m, ?s1)" ?m ?s1, OF _ _ _ _ _ rest]
    by (simp add: castRankedTensorType_def ty create_AllocMemRefOp_eq)
  then obtain bufs new where
    run: "allocateResults_loop rs shs ?s1 (acc @ [?m]) =
            Inr ((acc @ [?m]) @ bufs,
                 ?s1\<lparr>nextValue := nextValue ?s1 + length bufs, block := block ?s1 @ new\<rparr>)"
    and len: "length bufs = min (length rs) (length shs)" "length new = length bufs"
    and each: "\<forall>k < length bufs. \<exists>dims et.
               getType (rs ! k) = RankedTensorType dims et \<and>
               bufs ! k = Value (nextValue ?s1 + k) (MemRefType dims et) \<and>
               new ! k = AllocMemRefOp (bufs ! k) (shs ! k)"
    by blast
  show ?case
  proof (intro exI conjI)
    show "allocateResults_loop (result # rs) (resultShape # shs) s acc =
            Inr (acc @ (?m # bufs),
                 s\<lparr>nextValue := nextValue s + length (?m # bufs),
                   block := block s @ (AllocMemRefOp ?m resultShape # new)\<rparr>)"
      using run by (simp add: castRankedTensorType_def ty create_AllocMemRefOp_eq Let_def)
    show "length (?m # bufs) = min (length (result # rs)) (length (resultShape # shs))"
      using len by simp
    show "length (AllocMemRefOp ?m resultShape # new) = length (?m # bufs)"
      using len by simp
    show "s\<lparr>nextValue := nextValue s + length (?m # bufs),
                   block := block s @ (AllocMemRefOp ?m resultShape # new)\<rparr> =
          s\<lparr>nextValue := nextValue s + length (?m # bufs),
                   block := block s @ (AllocMemRefOp ?m resultShape # new)\<rparr>" ..
    show "\<forall>k<length (?m # bufs). \<exists>dims et.
       getType ((result # rs) ! k) = RankedTensorType dims et \<and>
       (?m # bufs) ! k = Value (nextValue s + k) (MemRefType dims et) \<and>
       (AllocMemRefOp ?m resultShape # new) ! k =
       AllocMemRefOp ((?m # bufs) ! k) ((resultShape # shs) ! k)"
    proof (intro allI impI)
      fix k assume k: "k < length (?m # bufs)"
      show "\<exists>dims et.
       getType ((result # rs) ! k) = RankedTensorType dims et \<and>
       (?m # bufs) ! k = Value (nextValue s + k) (MemRefType dims et) \<and>
       (AllocMemRefOp ?m resultShape # new) ! k =
       AllocMemRefOp ((?m # bufs) ! k) ((resultShape # shs) ! k)"
      proof (cases k)
        case 0
        then show ?thesis using ty by simp
      next
        case (Suc k')
        then have "k' < length bufs" using k by simp
        with each show ?thesis using Suc by simp
      qed
    qed
  qed
qed simp_all

lemma allocateResults_never_Failed:
  "allocateResults oper s out \<noteq> Inr (Failed, out', s')"
  by (auto simp: allocateResults_def bindF_def split: sum.splits)

lemma allocateResults_no_shapes:
  "bypassResultShapes oper s = Inr ([], s1) \<Longrightarrow>
   allocateResults oper s out = Inr (Succeeded [], out, s1)"
  by (cases out; cases "results oper") (simp_all add: allocateResults_def)

text \<open>
  Claim C3. For an operation with \<open>N\<close> results for which the resolver gives \<open>M\<close> shapes,
  \<open>allocateResults\<close> returns exactly \<open>min N M\<close> buffers: buffer \<open>k\<close> is a new value of the
  memref type of result \<open>k\<close>, created by one \<^verbatim>\<open>refback.alloc_memref\<close> on shape \<open>k\<close>, and the
  results past the last shape get nothing. The results that are paired with a shape are
  ranked tensors (the code casts their type).
\<close>

theorem allocateResults_count:
  assumes shapes: "bypassResultShapes oper s = Inr (shapes, s1)"
    and ranked: "\<forall>r \<in> set (take (length shapes) (results oper)).
                   \<exists>dims et. getType r = RankedTensorType dims et"
  shows "\<exists>bufs new s'.
           allocateResults oper s out = Inr (Succeeded bufs, map_option (\<lambda>xs. xs @ shapes) out, s') \<and>
           length bufs = min (length (results oper)) (length shapes) \<and>
           block s' = block s1 @ new \<and> length new = length bufs \<and>
           (\<forall>k < length bufs. \<exists>dims et.
               getType (results oper ! k) = RankedTensorType dims et \<and>
               bufs ! k = Value (nextValue s1 + k) (MemRefType dims et) \<and>
               new ! k = AllocMemRefOp (bufs ! k) (shapes ! k))"
proof -
  from allocateResults_loop_spec[OF ranked, of s1 "[]"]
  obtain bufs new where
    run: "allocateResults_loop (results oper) shapes s1 [] =
            Inr (bufs, s1\<lparr>nextValue := nextValue s1 + length bufs, block := block s1 @ new\<rparr>)"
    and len: "length bufs = min (length (results oper)) (length shapes)" "length new = length bufs"
    and each: "\<forall>k < length bufs. \<exists>dims et.
               getType (results oper ! k) = RankedTensorType dims et \<and>
               bufs ! k = Value (nextValue s1 + k) (MemRefType dims et) \<and>
               new ! k = AllocMemRefOp (bufs ! k) (shapes ! k)"
    by auto
  have "allocateResults oper s out =
          Inr (Succeeded bufs, map_option (\<lambda>xs. xs @ shapes) out,
               s1\<lparr>nextValue := nextValue s1 + length bufs, block := block s1 @ new\<rparr>)"
    by (cases out) (simp_all add: allocateResults_def shapes run)
  with len each show ?thesis by auto
qed

theorem allocateResults_count_witness:
  "bypassResultShapes ex_broadcast ex_state =
     Inr ([Value 1 (RankedTensorType [2] IndexType)], ex_state) \<and>
   take (length [Value 1 (RankedTensorType [2] IndexType)]) (results ex_broadcast) =
     [Value 2 (RankedTensorType [-1, -1] (FloatType 32))] \<and>
   (\<exists>bufs new s'.
      allocateResults ex_broadcast ex_state None =
        Inr (Succeeded bufs,
             map_option (\<lambda>xs. xs @ [Value 1 (RankedTensorType [2] IndexType)]) None, s') \<and>
      length bufs = min (length (results ex_broadcast))
                        (length [Value 1 (RankedTensorType [2] IndexType)]) \<and>
      block s' = block ex_state @ new \<and> length new = length bufs \<and>
      (\<forall>k < length bufs. \<exists>dims et.
          getType (results ex_broadcast ! k) = RankedTensorType dims et \<and>
          bufs ! k = Value (nextValue ex_state + k) (MemRefType dims et) \<and>
          new ! k = AllocMemRefOp (bufs ! k) ([Value 1 (RankedTensorType [2] IndexType)] ! k)))"
proof -
  have h1: "bypassResultShapes ex_broadcast ex_state =
              Inr ([Value 1 (RankedTensorType [2] IndexType)], ex_state)"
    by (simp add: bypassResultShapes_def ex_broadcast_def)
  have h2: "\<forall>r \<in> set (take (length [Value 1 (RankedTensorType [2] IndexType)]) (results ex_broadcast)).
              \<exists>dims et. getType r = RankedTensorType dims et"
    by (simp add: ex_broadcast_def)
  have h3: "take (length [Value 1 (RankedTensorType [2] IndexType)]) (results ex_broadcast) =
              [Value 2 (RankedTensorType [-1, -1] (FloatType 32))]"
    by (simp add: ex_broadcast_def)
  from h1 h3 allocateResults_count[OF h1 h2, of None] show ?thesis
    by blast
qed

text \<open>
  Claim C9. \<open>allocateResults\<close> never returns the failure alternative of its
  \<^verbatim>\<open>FailureOr\<close>. When the resolver gives no shape it returns success with no buffer and
  appends nothing to the shape list, so element 0 of either list does not exist, and the
  broadcast pattern, which reads both after its \<^verbatim>\<open>failed\<close> test, faults on the index.
\<close>

theorem allocateResults_no_failure_then_index_fault:
  "(\<forall>out out' s'. allocateResults oper s out \<noteq> Inr (Failed, out', s')) \<and>
   (bypassResultShapes oper s = Inr ([], s1) \<longrightarrow>
      (\<exists>bufs shapes.
         allocateResults oper s (Some []) = Inr (Succeeded bufs, Some shapes, s1) \<and>
         at_index bufs 0 = Inl IndexOutOfRange \<and>
         at_index shapes 0 = Inl IndexOutOfRange) \<and>
      ((\<exists>res rs rd re x xs xd xe.
          results oper = res # rs \<and> getType res = RankedTensorType rd re \<and>
          operands oper = x # xs \<and> getType x = RankedTensorType xd xe) \<longrightarrow>
       LowerBroadcastToToLoopsPattern_matchAndRewrite oper operands' s = Inl IndexOutOfRange))"
proof (intro conjI allI impI)
  fix out out' s'
  show "allocateResults oper s out \<noteq> Inr (Failed, out', s')"
    by (rule allocateResults_never_Failed)
next
  assume no: "bypassResultShapes oper s = Inr ([], s1)"
  show "\<exists>bufs shapes.
         allocateResults oper s (Some []) = Inr (Succeeded bufs, Some shapes, s1) \<and>
         at_index bufs 0 = Inl IndexOutOfRange \<and>
         at_index shapes 0 = Inl IndexOutOfRange"
    using allocateResults_no_shapes[OF no, of "Some []"] by simp
next
  assume no: "bypassResultShapes oper s = Inr ([], s1)"
    and wf: "\<exists>res rs rd re x xs xd xe.
          results oper = res # rs \<and> getType res = RankedTensorType rd re \<and>
          operands oper = x # xs \<and> getType x = RankedTensorType xd xe"
  then obtain res rs rd re x xs xd xe where
    "results oper = res # rs" "getType res = RankedTensorType rd re"
    "operands oper = x # xs" "getType x = RankedTensorType xd xe"
    by blast
  then show "LowerBroadcastToToLoopsPattern_matchAndRewrite oper operands' s = Inl IndexOutOfRange"
    by (simp add: LowerBroadcastToToLoopsPattern_matchAndRewrite_def castRankedTensorType_def
        allocateResults_no_shapes[OF no])
qed

theorem allocateResults_no_failure_then_index_fault_witness:
  "bypassResultShapes ex_add ex_state = Inr ([], ex_state) \<and>
   (\<exists>res rs rd re x xs xd xe.
      results ex_add = res # rs \<and> getType res = RankedTensorType rd re \<and>
      operands ex_add = x # xs \<and> getType x = RankedTensorType xd xe) \<and>
   (\<exists>bufs shapes.
      allocateResults ex_add ex_state (Some []) = Inr (Succeeded bufs, Some shapes, ex_state) \<and>
      at_index bufs 0 = Inl IndexOutOfRange \<and>
      at_index shapes 0 = Inl IndexOutOfRange) \<and>
   LowerBroadcastToToLoopsPattern_matchAndRewrite ex_add
     [Value 3 (MemRefType [-1] (FloatType 32))] ex_state = Inl IndexOutOfRange"
proof -
  have no: "bypassResultShapes ex_add ex_state = Inr ([], ex_state)"
    by (simp add: bypassResultShapes_def ex_add_def tcp_broadcast_to_def tcp_matmul_def)
  have wf: "\<exists>res rs rd re x xs xd xe.
      results ex_add = res # rs \<and> getType res = RankedTensorType rd re \<and>
      operands ex_add = x # xs \<and> getType x = RankedTensorType xd xe"
    by (simp add: ex_add_def)
  from allocateResults_no_failure_then_index_fault
         [of ex_add ex_state ex_state "[Value 3 (MemRefType [-1] (FloatType 32))]"] no wf
  show ?thesis by blast
qed

section \<open>The matmul pattern\<close>

text \<open>
  Claim C10. Whatever the element type \<open>et\<close> of the result of a matmul, the pattern fills
  the output buffer with the constant it builds from \<^verbatim>\<open>getF32FloatAttr(0.0)\<close>: the last three
  operations it creates are the constant \<open>0.0\<close> of type \<open>f32\<close>, the fill of the buffer with it,
  and the \<^verbatim>\<open>linalg.matmul\<close>; the buffer itself has element type \<open>et\<close>.
\<close>

theorem matmul_fill_constant_is_f32:
  assumes "opName oper = tcp_matmul"
    and "operands oper = [lhs, rhs]"
    and "results oper = [r]"
    and "getType r = RankedTensorType dims et"
  shows "\<exists>buf c0 pre s'.
           BufferizeMatmulOp_matchAndRewrite oper operands' s = Inr (success, s') \<and>
           block s' = block s @ pre @
             [ConstantOp c0 (FloatAttr (FloatType 32) 0), FillOp buf c0, LinalgMatmulOp operands' [buf]] \<and>
           getType c0 = FloatType 32 \<and>
           getType buf = MemRefType dims et \<and>
           replacements s' = replacements s @ [(oper, [buf])]"
  using assms
  by (simp add: BufferizeMatmulOp_matchAndRewrite_def allocateResults_def
      bypassResultShapes_matmul castRankedTensorType_def create_AllocMemRefOp_eq
      create_ConstantOp_def getF32FloatAttr_def newValue_def insertOp_def
      create_FillOp_def create_LinalgMatmulOp_def replaceOp_def Let_def)

theorem matmul_fill_constant_is_f32_witness:
  "opName ex_matmul = tcp_matmul \<and>
   operands ex_matmul = [Value 0 (RankedTensorType [-1, -1] (FloatType 64)),
                         Value 1 (RankedTensorType [-1, -1] (FloatType 64))] \<and>
   results ex_matmul = [Value 2 (RankedTensorType [-1, -1] (FloatType 64))] \<and>
   getType (Value 2 (RankedTensorType [-1, -1] (FloatType 64))) =
     RankedTensorType [-1, -1] (FloatType 64) \<and>
   (\<exists>buf c0 pre s'.
      BufferizeMatmulOp_matchAndRewrite ex_matmul [] ex_state = Inr (success, s') \<and>
      block s' = block ex_state @ pre @
        [ConstantOp c0 (FloatAttr (FloatType 32) 0), FillOp buf c0, LinalgMatmulOp [] [buf]] \<and>
      getType c0 = FloatType 32 \<and>
      getType buf = MemRefType [-1, -1] (FloatType 64) \<and>
      replacements s' = replacements ex_state @ [(ex_matmul, [buf])])"
proof -
  have h1: "opName ex_matmul = tcp_matmul"
    by (simp add: ex_matmul_def)
  have h2: "operands ex_matmul = [Value 0 (RankedTensorType [-1, -1] (FloatType 64)),
                                  Value 1 (RankedTensorType [-1, -1] (FloatType 64))]"
    by (simp add: ex_matmul_def)
  have h3: "results ex_matmul = [Value 2 (RankedTensorType [-1, -1] (FloatType 64))]"
    by (simp add: ex_matmul_def)
  have h4: "getType (Value 2 (RankedTensorType [-1, -1] (FloatType 64))) =
              RankedTensorType [-1, -1] (FloatType 64)"
    by simp
  from h1 h2 h3 h4 matmul_fill_constant_is_f32[OF h1 h2 h3 h4, of "[]" ex_state]
  show ?thesis by blast
qed

section \<open>What the resolver does to the program\<close>

lemma exec_matmul_shape_ops:
  assumes "valueId lhs < n" "valueId rhs < n"
    and "extentsOf t lhs = Inr [m, k]" "extentsOf t rhs = Inr [k', n']"
  shows "exec_block
           [DimOp (Value n IndexType) lhs 0,
            DimOp (Value (Suc n) IndexType) rhs 1,
            TensorFromElementsOp (Value (Suc (Suc n)) (RankedTensorType [2] IndexType))
              [Value n IndexType, Value (Suc n) IndexType]] t =
         Inr (bindValue (Value (Suc (Suc n)) (RankedTensorType [2] IndexType)) (ShapeVal [m, n'])
               (bindValue (Value (Suc n) IndexType) (IndexVal n')
                 (bindValue (Value n IndexType) (IndexVal m) t)))"
  using assms by (simp add: fresh_neq')


lemma ex_rt_matmul_extents:
  "extentsOf ex_rt_matmul (Value 0 (RankedTensorType [-1, -1] (FloatType 64))) = Inr [4, 5]"
  "extentsOf ex_rt_matmul (Value 1 (RankedTensorType [-1, -1] (FloatType 64))) = Inr [5, 6]"
  by (simp_all add: extentsOf_def ex_rt_matmul_def)

text \<open>
  Claim C7. For a matmul whose operands are of rank 2, with extents \<open>[m, k]\<close> and \<open>[k', n]\<close>,
  the resolver returns exactly one shape value, of type \<open>tensor<2 x index>\<close>; the operations
  it inserts to compute it run without fault and bind it to the two extents \<open>[m, n]\<close>: the
  rows of the left operand and the columns of the right one.
\<close>

theorem matmul_result_shape:
  assumes "opName oper = tcp_matmul"
    and "operands oper = [lhs, rhs]"
    and "valueId lhs < nextValue s" "valueId rhs < nextValue s"
    and "extentsOf t lhs = Inr [m, k]" "extentsOf t rhs = Inr [k', n]"
  shows "\<exists>sh s' new t'.
           bypassResultShapes oper s = Inr ([sh], s') \<and>
           getType sh = RankedTensorType [2] IndexType \<and>
           block s' = block s @ new \<and>
           exec_block new t = Inr t' \<and>
           env t' sh = Some (ShapeVal [m, n])"
proof -
  let ?sh = "Value (Suc (Suc (nextValue s))) (RankedTensorType [2] IndexType)"
  let ?new = "[DimOp (Value (nextValue s) IndexType) lhs 0,
               DimOp (Value (Suc (nextValue s)) IndexType) rhs 1,
               TensorFromElementsOp ?sh
                 [Value (nextValue s) IndexType, Value (Suc (nextValue s)) IndexType]]"
  let ?t' = "bindValue ?sh (ShapeVal [m, n])
               (bindValue (Value (Suc (nextValue s)) IndexType) (IndexVal n)
                 (bindValue (Value (nextValue s) IndexType) (IndexVal m) t))"
  have "bypassResultShapes oper s =
          Inr ([?sh], s\<lparr>nextValue := nextValue s + 3, block := block s @ ?new\<rparr>)"
    using assms(1,2) by (simp add: bypassResultShapes_matmul)
  moreover have "exec_block ?new t = Inr ?t'"
    using assms(3-6) by (rule exec_matmul_shape_ops)
  moreover have "env ?t' ?sh = Some (ShapeVal [m, n])"
    by (simp add: bindValue_def)
  ultimately show ?thesis
    by (intro exI[of _ ?sh] exI[of _ "s\<lparr>nextValue := nextValue s + 3, block := block s @ ?new\<rparr>"]
              exI[of _ ?new] exI[of _ ?t']) simp
qed

theorem matmul_result_shape_witness:
  "opName ex_matmul = tcp_matmul \<and>
   operands ex_matmul = [Value 0 (RankedTensorType [-1, -1] (FloatType 64)),
                         Value 1 (RankedTensorType [-1, -1] (FloatType 64))] \<and>
   valueId (Value 0 (RankedTensorType [-1, -1] (FloatType 64))) < nextValue ex_state \<and>
   valueId (Value 1 (RankedTensorType [-1, -1] (FloatType 64))) < nextValue ex_state \<and>
   extentsOf ex_rt_matmul (Value 0 (RankedTensorType [-1, -1] (FloatType 64))) = Inr [4, 5] \<and>
   extentsOf ex_rt_matmul (Value 1 (RankedTensorType [-1, -1] (FloatType 64))) = Inr [5, 6] \<and>
   (\<exists>sh s' new t'.
      bypassResultShapes ex_matmul ex_state = Inr ([sh], s') \<and>
      getType sh = RankedTensorType [2] IndexType \<and>
      block s' = block ex_state @ new \<and>
      exec_block new ex_rt_matmul = Inr t' \<and>
      env t' sh = Some (ShapeVal [4, 6]))"
proof -
  have h1: "opName ex_matmul = tcp_matmul"
    by (simp add: ex_matmul_def)
  have h2: "operands ex_matmul = [Value 0 (RankedTensorType [-1, -1] (FloatType 64)),
                                  Value 1 (RankedTensorType [-1, -1] (FloatType 64))]"
    by (simp add: ex_matmul_def)
  have h3: "valueId (Value 0 (RankedTensorType [-1, -1] (FloatType 64))) < nextValue ex_state"
    by (simp add: ex_state_def)
  have h4: "valueId (Value 1 (RankedTensorType [-1, -1] (FloatType 64))) < nextValue ex_state"
    by (simp add: ex_state_def)
  note h5 = ex_rt_matmul_extents(1) and h6 = ex_rt_matmul_extents(2)
  from h1 h2 h3 h4 h5 h6 matmul_result_shape[OF h1 h2 h3 h4 h5 h6]
  show ?thesis by blast
qed




text \<open>
  Claim C8. For a BroadcastTo or a Matmul, two calls of the resolver on the operation, the
  second on the program the first one left, return the same shape: both returned values
  are bound to the same extents when the inserted operations have run. For a BroadcastTo
  the two calls return the very same SSA value (the shape operand) and leave the program
  as it was; for a Matmul each call creates its own operations, so the two SSA values
  differ while their extents agree.
\<close>

theorem shape_resolution_repeatable:
  assumes kind: "opName oper = tcp_broadcast_to \<or> opName oper = tcp_matmul"
    and ops: "operands oper = [a, b]"
    and fresh: "valueId a < nextValue s" "valueId b < nextValue s"
    and bc: "opName oper = tcp_broadcast_to \<longrightarrow> env t b = Some (ShapeVal [m, n])"
    and mm: "opName oper = tcp_matmul \<longrightarrow> extentsOf t a = Inr [m, k] \<and> extentsOf t b = Inr [k', n]"
  shows "\<exists>sh1 s1 sh2 s2 new t'.
           bypassResultShapes oper s = Inr ([sh1], s1) \<and>
           bypassResultShapes oper s1 = Inr ([sh2], s2) \<and>
           block s2 = block s @ new \<and>
           exec_block new t = Inr t' \<and>
           env t' sh1 = Some (ShapeVal [m, n]) \<and>
           env t' sh2 = Some (ShapeVal [m, n]) \<and>
           (opName oper = tcp_broadcast_to \<longrightarrow> sh1 = sh2 \<and> s2 = s)"
  using kind
proof
  assume b: "opName oper = tcp_broadcast_to"
  have "bypassResultShapes oper s = Inr ([b], s)"
    using b ops by (simp add: bypassResultShapes_broadcast)
  moreover have "exec_block [] t = Inr t" by simp
  moreover have "env t b = Some (ShapeVal [m, n])" using bc b by simp
  ultimately show ?thesis
    by (intro exI[of _ b] exI[of _ s] exI[of _ "[]"] exI[of _ t]) simp
next
  assume mmk: "opName oper = tcp_matmul"
  let ?n = "nextValue s"
  let ?sh1 = "Value (Suc (Suc ?n)) (RankedTensorType [2] IndexType)"
  let ?new1 = "[DimOp (Value ?n IndexType) a 0,
               DimOp (Value (Suc ?n) IndexType) b 1,
               TensorFromElementsOp ?sh1 [Value ?n IndexType, Value (Suc ?n) IndexType]]"
  let ?s1 = "s\<lparr>nextValue := ?n + 3, block := block s @ ?new1\<rparr>"
  let ?t1 = "bindValue ?sh1 (ShapeVal [m, n])
               (bindValue (Value (Suc ?n) IndexType) (IndexVal n)
                 (bindValue (Value ?n IndexType) (IndexVal m) t))"
  let ?k = "?n + 3"
  let ?sh2 = "Value (Suc (Suc ?k)) (RankedTensorType [2] IndexType)"
  let ?new2 = "[DimOp (Value ?k IndexType) a 0,
               DimOp (Value (Suc ?k) IndexType) b 1,
               TensorFromElementsOp ?sh2 [Value ?k IndexType, Value (Suc ?k) IndexType]]"
  let ?s2 = "?s1\<lparr>nextValue := ?k + 3, block := block ?s1 @ ?new2\<rparr>"
  let ?t2 = "bindValue ?sh2 (ShapeVal [m, n])
               (bindValue (Value (Suc ?k) IndexType) (IndexVal n)
                 (bindValue (Value ?k IndexType) (IndexVal m) ?t1))"
  have ea: "extentsOf t a = Inr [m, k]" and eb: "extentsOf t b = Inr [k', n]"
    using mm mmk by simp_all
  have r1: "bypassResultShapes oper s = Inr ([?sh1], ?s1)"
    using mmk ops by (simp add: bypassResultShapes_matmul)
  have r2: "bypassResultShapes oper ?s1 = Inr ([?sh2], ?s2)"
    using mmk ops by (simp add: bypassResultShapes_matmul)
  have e1: "exec_block ?new1 t = Inr ?t1"
    using fresh ea eb by (rule exec_matmul_shape_ops)
  have ea1: "extentsOf ?t1 a = Inr [m, k]" and eb1: "extentsOf ?t1 b = Inr [k', n]"
    using fresh ea eb by (simp_all add: fresh_neq')
  have e2: "exec_block ?new2 ?t1 = Inr ?t2"
    using fresh ea1 eb1 by (intro exec_matmul_shape_ops) simp_all
  have e12: "exec_block (?new1 @ ?new2) t = Inr ?t2"
    unfolding exec_block_append e1 using e2 by simp
  have l1: "env ?t2 ?sh1 = Some (ShapeVal [m, n])" and l2: "env ?t2 ?sh2 = Some (ShapeVal [m, n])"
    by (simp_all add: bindValue_def)
  have blk: "block ?s2 = block s @ (?new1 @ ?new2)"
    by simp
  show ?thesis
    using r1 r2 blk e12 l1 l2 mmk
    by (intro exI[of _ ?sh1] exI[of _ ?s1] exI[of _ ?sh2] exI[of _ ?s2]
              exI[of _ "?new1 @ ?new2"] exI[of _ ?t2] conjI) simp_all
qed

theorem shape_resolution_repeatable_witness:
  "opName ex_matmul = tcp_matmul \<and>
   operands ex_matmul = [Value 0 (RankedTensorType [-1, -1] (FloatType 64)),
                         Value 1 (RankedTensorType [-1, -1] (FloatType 64))] \<and>
   extentsOf ex_rt_matmul (Value 0 (RankedTensorType [-1, -1] (FloatType 64))) = Inr [4, 5] \<and>
   extentsOf ex_rt_matmul (Value 1 (RankedTensorType [-1, -1] (FloatType 64))) = Inr [5, 6] \<and>
   (\<exists>sh1 s1 sh2 s2 new t'.
      bypassResultShapes ex_matmul ex_state = Inr ([sh1], s1) \<and>
      bypassResultShapes ex_matmul s1 = Inr ([sh2], s2) \<and>
      block s2 = block ex_state @ new \<and>
      exec_block new ex_rt_matmul = Inr t' \<and>
      env t' sh1 = Some (ShapeVal [4, 6]) \<and>
      env t' sh2 = Some (ShapeVal [4, 6]))"
proof -
  have h1: "opName ex_matmul = tcp_matmul"
    by (simp add: ex_matmul_def)
  have h2: "operands ex_matmul = [Value 0 (RankedTensorType [-1, -1] (FloatType 64)),
                                  Value 1 (RankedTensorType [-1, -1] (FloatType 64))]"
    by (simp add: ex_matmul_def)
  have h3: "valueId (Value 0 (RankedTensorType [-1, -1] (FloatType 64))) < nextValue ex_state"
    "valueId (Value 1 (RankedTensorType [-1, -1] (FloatType 64))) < nextValue ex_state"
    by (simp_all add: ex_state_def)
  have "\<exists>sh1 s1 sh2 s2 new t'.
      bypassResultShapes ex_matmul ex_state = Inr ([sh1], s1) \<and>
      bypassResultShapes ex_matmul s1 = Inr ([sh2], s2) \<and>
      block s2 = block ex_state @ new \<and>
      exec_block new ex_rt_matmul = Inr t' \<and>
      env t' sh1 = Some (ShapeVal [4, 6]) \<and>
      env t' sh2 = Some (ShapeVal [4, 6]) \<and>
      (opName ex_matmul = tcp_broadcast_to \<longrightarrow> sh1 = sh2 \<and> s2 = ex_state)"
    using h1 ex_rt_matmul_extents
    by (intro shape_resolution_repeatable[OF _ h2 h3, where k = 5 and k' = 5]) simp_all
  with h1 h2 ex_rt_matmul_extents show ?thesis by blast
qed

section \<open>Failure of a pattern\<close>



lemma isIllegal_bufferizeTarget:
  "isIllegal bufferizeTarget x \<longleftrightarrow> getName x = tcp_broadcast_to \<or> getName x = tcp_matmul"
  by (cases "getName x")
     (auto simp: isIllegal_def getOpAction_def bufferizeTarget_def addLegalOp_def addIllegalOp_def
      addLegalDialect_def emptyTarget_def tcp_broadcast_to_def tcp_matmul_def
      refback_alloc_memref_def shape_get_extent_def split: option.splits if_splits)



section \<open>The conversion driver\<close>

lemma allOps_Cons: "allOps (x # xs) = nestedOps x @ allOps xs"
  by (simp add: allOps_def)

lemma self_in_nestedOps: "x \<in> set (nestedOps x)"
  by (cases x) simp_all

lemma tryPatterns_bufferize_other:
  "opName g \<noteq> tcp_broadcast_to \<Longrightarrow> opName g \<noteq> tcp_matmul \<Longrightarrow>
   tryPatterns bufferizePatterns g operands' s = Inr (failure, s)"
  by (simp add: bufferizePatterns_def)

lemma convert_block_from_ops:
  "(\<And>x s. x \<in> set xs \<Longrightarrow> convert_op T ps x s = Inr (success, insertOp x s)) \<Longrightarrow>
   convert_block T ps xs s = Inr (success, s\<lparr>block := block s @ xs\<rparr>)"
  by (induction xs arbitrary: s) (simp_all add: insertOp_def)

lemma convert_op_not_illegal:
  "(\<forall>y \<in> set (nestedOps x). \<not> isIllegal bufferizeTarget y) \<Longrightarrow>
     convert_op bufferizeTarget bufferizePatterns x s = Inr (success, insertOp x s)"
proof (induction x arbitrary: s)
  case (ForOp lb ub st iv body)
  have "convert_block bufferizeTarget bufferizePatterns body (s\<lparr>block := []\<rparr>) =
          Inr (success, s\<lparr>block := []\<rparr>\<lparr>block := block (s\<lparr>block := []\<rparr>) @ body\<rparr>)"
  proof (rule convert_block_from_ops)
    fix x s' assume x: "x \<in> set body"
    then have "\<forall>y \<in> set (nestedOps x). \<not> isIllegal bufferizeTarget y"
      using ForOp.prems by auto
    with x show "convert_op bufferizeTarget bufferizePatterns x s' = Inr (success, insertOp x s')"
      by (rule ForOp.IH)
  qed
  then show ?case
    using ForOp.prems by (simp add: insertOp_def)
next
  case (GenericOp g)
  then have "opName g \<noteq> tcp_broadcast_to" "opName g \<noteq> tcp_matmul"
    by (simp_all add: isIllegal_bufferizeTarget)
  then show ?case
    using GenericOp by (simp add: tryPatterns_bufferize_other)
qed simp_all

lemma convert_block_not_illegal:
  assumes "\<forall>y \<in> set (allOps xs). \<not> isIllegal bufferizeTarget y"
  shows "convert_block bufferizeTarget bufferizePatterns xs s = Inr (success, s\<lparr>block := block s @ xs\<rparr>)"
proof (rule convert_block_from_ops)
  fix x s' assume "x \<in> set xs"
  then have "\<forall>y \<in> set (nestedOps x). \<not> isIllegal bufferizeTarget y"
    using assms by (auto simp: allOps_def)
  then show "convert_op bufferizeTarget bufferizePatterns x s' = Inr (success, insertOp x s')"
    by (rule convert_op_not_illegal)
qed

lemma lookupOrDefault_Nil [simp]: "lookupOrDefault [] v = v"
  by (simp add: lookupOrDefault_def)

lemma rebind_id [simp]: "rebind (\<lambda>v. v) x = x"
  by (induction x) (simp_all add: map_idI)

lemma run_without_illegal:
  assumes "\<forall>y \<in> set (allOps (funcBody func)). \<not> isIllegal bufferizeTarget y"
  shows "runOnOperation func = Inr (PassSuccess func)"
proof -
  have "lookupOrDefault [] = (\<lambda>v. v)"
    by (rule ext) simp
  then show ?thesis
    using convert_block_not_illegal[OF assms]
    by (simp add: runOnOperation_def applyPartialConversion_def map_idI)
qed

lemma isLegal_not_isIllegal: "isLegal T x \<Longrightarrow> \<not> isIllegal T x"
  by (simp add: isLegal_def isIllegal_def)












section \<open>The code the broadcast pattern creates\<close>

lemma stridedValues_length [simp]: "length (stridedValues ty n m) = m"
  by (induction m arbitrary: n) simp_all

lemma stridedValues_nth: "k < m \<Longrightarrow> stridedValues ty n m ! k = Value (n + 2 * k + 1) ty"
proof (induction m arbitrary: n k)
  case 0
  then show ?case by simp
next
  case (Suc m)
  then show ?case by (cases k) simp_all
qed

lemma consecutiveValues_length [simp]: "length (consecutiveValues n m) = m"
  by (induction m arbitrary: n) simp_all

lemma consecutiveValues_nth: "k < m \<Longrightarrow> consecutiveValues n m ! k = Value (n + k) IndexType"
proof (induction m arbitrary: n k)
  case 0
  then show ?case by simp
next
  case (Suc m)
  then show ?case by (cases k) simp_all
qed

lemma create_ConstantIndexOp_eq:
  "create_ConstantIndexOp c s =
     (Value (nextValue s) IndexType,
      s\<lparr>nextValue := Suc (nextValue s),
        block := block s @ [ConstantIndexOp (Value (nextValue s) IndexType) c]\<rparr>)"
  by (simp add: create_ConstantIndexOp_def newValue_def insertOp_def)

lemma create_GetExtentOp_eq:
  "create_GetExtentOp ty sh d s =
     (Value (nextValue s) ty,
      s\<lparr>nextValue := Suc (nextValue s), block := block s @ [GetExtentOp (Value (nextValue s) ty) sh d]\<rparr>)"
  by (simp add: create_GetExtentOp_def newValue_def insertOp_def)

lemma create_CmpIOp_eq:
  "create_CmpIOp p a b s =
     (Value (nextValue s) (IntegerType 1),
      s\<lparr>nextValue := Suc (nextValue s),
        block := block s @ [CmpIOp (Value (nextValue s) (IntegerType 1)) p a b]\<rparr>)"
  by (simp add: create_CmpIOp_def newValue_def insertOp_def)

lemma create_SelectOp_eq:
  "create_SelectOp c a b s =
     (Value (nextValue s) (getType a),
      s\<lparr>nextValue := Suc (nextValue s),
        block := block s @ [SelectOp (Value (nextValue s) (getType a)) c a b]\<rparr>)"
  by (simp add: create_SelectOp_def newValue_def insertOp_def)

lemma create_ForOp_enter_eq:
  "create_ForOp_enter lb ub st s =
     (Value (nextValue s) IndexType,
      s\<lparr>nextValue := Suc (nextValue s), block := [],
        enclosing := (block s, lb, ub, st, Value (nextValue s) IndexType) # enclosing s\<rparr>)"
  by (simp add: create_ForOp_enter_def newValue_def)

lemma outputExtents_loop_steps:
  "nat (e - i) = m \<Longrightarrow>
   outputExtents_loop i e sh s acc =
     (acc @ stridedValues IndexType (nextValue s) m,
      s\<lparr>nextValue := nextValue s + 2 * m,
        block := block s @ extentOps (nextValue s) sh i m\<rparr>)"
proof (induction m arbitrary: i s acc)
  case 0
  then show ?case
    by (simp add: outputExtents_loop.simps[of i e])
next
  case (Suc m)
  then have lt: "i < e" and m: "nat (e - (i + 1)) = m"
    by simp_all
  show ?case
    by (subst outputExtents_loop.simps)
       (simp add: lt create_ConstantIndexOp_eq create_GetExtentOp_eq Suc.IH[OF m])
qed

lemma inputDimRequiresBroadcasting_loop_steps:
  "nat (e - i) = m \<Longrightarrow> 0 \<le> rd + i \<Longrightarrow> nat (rd + i) + m \<le> length oe \<Longrightarrow>
   inputDimRequiresBroadcasting_loop i e x rd oe s acc =
     Inr (acc @ stridedValues (IntegerType 1) (nextValue s) m,
          s\<lparr>nextValue := nextValue s + 2 * m,
            block := block s @ flagOps (nextValue s) x oe (nat (rd + i)) i m\<rparr>)"
proof (induction m arbitrary: i s acc)
  case 0
  then show ?case
    by (simp add: inputDimRequiresBroadcasting_loop.simps[of i e])
next
  case (Suc m)
  then have lt: "i < e" and m: "nat (e - (i + 1)) = m"
    and p: "0 \<le> rd + (i + 1)" and q: "nat (rd + (i + 1)) + m \<le> length oe"
    by simp_all
  have at: "at_index oe (rd + i) = Inr (oe ! nat (rd + i))"
    using Suc.prems by (intro at_index_in_range) simp_all
  have k: "nat (rd + (i + 1)) = Suc (nat (rd + i))"
    using Suc.prems by simp
  show ?case
    by (subst inputDimRequiresBroadcasting_loop.simps)
       (simp add: lt create_DimOp_eq create_CmpIOp_eq at Suc.IH[OF m p q] k)
qed

lemma take_drop_Suc: "i < length xs \<Longrightarrow> take (Suc m) (drop i xs) = xs ! i # take m (drop (Suc i) xs)"
  by (simp add: Cons_nth_drop_Suc[symmetric])

lemma createLoops_loop_steps:
  "nat (e - i) = m \<Longrightarrow> 0 \<le> i \<Longrightarrow> nat i + m \<le> length oe \<Longrightarrow>
   createLoops_loop i e c0 c1 oe s acc =
     Inr (acc @ consecutiveValues (nextValue s) m,
          s\<lparr>nextValue := nextValue s + m,
            block := (if m = 0 then block s else []),
            enclosing :=
              rev (loopFrames (block s) c0 c1
                     (zip (take m (drop (nat i) oe)) (consecutiveValues (nextValue s) m)))
              @ enclosing s\<rparr>)"
proof (induction m arbitrary: i s acc)
  case 0
  then show ?case
    by (simp add: createLoops_loop.simps[of i e])
next
  case (Suc m)
  then have lt: "i < e" and m: "nat (e - (i + 1)) = m"
    and p: "0 \<le> i + 1" and q: "nat (i + 1) + m \<le> length oe"
    by simp_all
  have at: "at_index oe i = Inr (oe ! nat i)"
    using Suc.prems by (intro at_index_in_range) simp_all
  have k: "nat (i + 1) = Suc (nat i)"
    using Suc.prems by simp
  have td: "take (Suc m) (drop (nat i) oe) = oe ! nat i # take m (drop (Suc (nat i)) oe)"
    using Suc.prems by (intro take_drop_Suc) simp
  have fr: "loopFrames [] c0 c1 hs = [] \<longleftrightarrow> hs = []" for hs
    by (cases hs) auto
  show ?case
    by (subst createLoops_loop.simps)
       (simp add: lt create_ForOp_enter_eq at Suc.IH[OF m p q] k td)
qed

lemma inputIndices_loop_steps:
  "nat (e - i) = m \<Longrightarrow> 0 \<le> i \<Longrightarrow> nat i + m \<le> length fl \<Longrightarrow>
   0 \<le> rd + i \<Longrightarrow> nat (rd + i) + m \<le> length ivs \<Longrightarrow>
   inputIndices_loop i e rd fl ivs s acc =
     Inr (acc @ stridedValues IndexType (nextValue s) m,
          s\<lparr>nextValue := nextValue s + 2 * m,
            block := block s @ selectOps (nextValue s) fl ivs (nat (rd + i)) (nat i) m\<rparr>)"
proof (induction m arbitrary: i s acc)
  case 0
  then show ?case
    by (simp add: inputIndices_loop.simps[of i e])
next
  case (Suc m)
  then have lt: "i < e" and m: "nat (e - (i + 1)) = m"
    and p: "0 \<le> i + 1" and q: "nat (i + 1) + m \<le> length fl"
    and p': "0 \<le> rd + (i + 1)" and q': "nat (rd + (i + 1)) + m \<le> length ivs"
    by simp_all
  have at: "at_index fl i = Inr (fl ! nat i)"
    using Suc.prems by (intro at_index_in_range) simp_all
  have at': "at_index ivs (rd + i) = Inr (ivs ! nat (rd + i))"
    using Suc.prems by (intro at_index_in_range) simp_all
  have k: "nat (i + 1) = Suc (nat i)" "nat (rd + (i + 1)) = Suc (nat (rd + i))"
    using Suc.prems by simp_all
  show ?case
    by (subst inputIndices_loop.simps)
       (simp add: lt create_ConstantIndexOp_eq create_SelectOp_eq at at' Suc.IH[OF m p q p' q'] k)
qed

lemma restoreInsertionPoint_frames:
  "length enc0 = d \<Longrightarrow>
   restoreInsertionPoint d (s\<lparr>block := b, enclosing := fs @ enc0\<rparr>) =
     s\<lparr>block := closeFrames fs b, enclosing := enc0\<rparr>"
proof (induction fs arbitrary: b s)
  case Nil
  then show ?case
    by (subst restoreInsertionPoint.simps) simp
next
  case (Cons f fs)
  obtain outer lb ub st iv where f: "f = (outer, lb, ub, st, iv)"
    by (cases f) auto
  have "restoreInsertionPoint d (s\<lparr>block := b, enclosing := (f # fs) @ enc0\<rparr>) =
        restoreInsertionPoint d (s\<lparr>block := outer @ [ForOp lb ub st iv b], enclosing := fs @ enc0\<rparr>)"
    using Cons.prems
    by (subst restoreInsertionPoint.simps) (simp add: closeLoop_def f)
  then show ?case
    using Cons.IH[OF Cons.prems] by (simp add: f)
qed

lemma closeFrames_inner:
  "closeFrames (rev (loopFrames [] c0 c1 hs) @ fs) body = closeFrames fs (loopNest c0 c1 hs body)"
proof (induction hs arbitrary: fs body)
  case Nil
  then show ?case by simp
next
  case (Cons h hs)
  obtain ub iv where h: "h = (ub, iv)" by (cases h) auto
  show ?case
    using Cons.IH[of "([], c0, ub, c1, iv) # fs" body] by (simp add: h)
qed

lemma closeFrames_loopFrames:
  "closeFrames (rev (loopFrames pre c0 c1 hs)) ((if hs = [] then pre else []) @ body) =
     pre @ loopNest c0 c1 hs body"
proof (cases hs)
  case Nil
  then show ?thesis by simp
next
  case (Cons h hs')
  obtain ub iv where h: "h = (ub, iv)" by (cases h) auto
  show ?thesis
    using closeFrames_inner[of c0 c1 hs' "[(pre, c0, ub, c1, iv)]" body]
    by (simp add: Cons h)
qed


lemma allocateResults_loop_Nil2 [simp]: "allocateResults_loop rs [] s acc = Inr (acc, s)"
  by (cases rs) simp_all

lemma allocateResults_broadcast:
  assumes "opName oper = tcp_broadcast_to" "operands oper = x # shp # os"
    "results oper = r # rs" "getType r = RankedTensorType rdims et"
  shows "allocateResults oper s (Some []) =
     Inr (Succeeded [Value (nextValue s) (MemRefType rdims et)], Some [shp],
          s\<lparr>nextValue := Suc (nextValue s),
            block := block s @ [AllocMemRefOp (Value (nextValue s) (MemRefType rdims et)) shp]\<rparr>)"
  using assms
  by (simp add: allocateResults_def bypassResultShapes_broadcast castRankedTensorType_def
      create_AllocMemRefOp_eq Let_def)

lemma outputExtents_loop_0:
  "outputExtents_loop 0 (int R) sh s [] =
     (stridedValues IndexType (nextValue s) R,
      s\<lparr>nextValue := nextValue s + 2 * R, block := block s @ extentOps (nextValue s) sh 0 R\<rparr>)"
  using outputExtents_loop_steps[of "int R" 0 R sh s "[]"] by simp

lemma inputDimRequiresBroadcasting_loop_0:
  assumes "Q \<le> R" "length oe = R"
  shows "inputDimRequiresBroadcasting_loop 0 (int Q) x (int R - int Q) oe s [] =
     Inr (stridedValues (IntegerType 1) (nextValue s) Q,
          s\<lparr>nextValue := nextValue s + 2 * Q,
            block := block s @ flagOps (nextValue s) x oe (R - Q) 0 Q\<rparr>)"
proof -
  have "nat (int R - int Q) = R - Q"
    using assms by simp
  then show ?thesis
    using inputDimRequiresBroadcasting_loop_steps[of "int Q" 0 Q "int R - int Q" oe x s "[]"] assms
    by simp
qed

lemma createLoops_loop_0:
  assumes "length oe = R"
  shows "createLoops_loop 0 (int R) c0 c1 oe s [] =
     Inr (consecutiveValues (nextValue s) R,
          s\<lparr>nextValue := nextValue s + R,
            block := (if R = 0 then block s else []),
            enclosing :=
              rev (loopFrames (block s) c0 c1 (zip oe (consecutiveValues (nextValue s) R)))
              @ enclosing s\<rparr>)"
  using createLoops_loop_steps[of "int R" 0 R oe c0 c1 s "[]"] assms by simp

lemma inputIndices_loop_0:
  assumes "Q \<le> R" "length fl = Q" "length ivs = R"
  shows "inputIndices_loop 0 (int Q) (int R - int Q) fl ivs s [] =
     Inr (stridedValues IndexType (nextValue s) Q,
          s\<lparr>nextValue := nextValue s + 2 * Q,
            block := block s @ selectOps (nextValue s) fl ivs (R - Q) 0 Q\<rparr>)"
proof -
  have "nat (int R - int Q) = R - Q"
    using assms by simp
  then show ?thesis
    using inputIndices_loop_steps[of "int Q" 0 Q fl "int R - int Q" ivs s "[]"] assms
    by simp
qed

lemma closeFrames_loopFrames_ne:
  "hs \<noteq> [] \<Longrightarrow> closeFrames (rev (loopFrames pre c0 c1 hs)) body = pre @ loopNest c0 c1 hs body"
  using closeFrames_loopFrames[of pre c0 c1 hs body] by simp

lemma restoreInsertionPoint_done:
  "length (enclosing s) \<le> d \<Longrightarrow> restoreInsertionPoint d s = s"
  by (subst restoreInsertionPoint.simps) simp

lemma restoreInsertionPoint_explicit:
  "restoreInsertionPoint (length enc0)
     \<lparr>nextValue = n, block = b, enclosing = fs @ enc0, replacements = rp\<rparr> =
   \<lparr>nextValue = n, block = closeFrames fs b, enclosing = enc0, replacements = rp\<rparr>"
  using restoreInsertionPoint_frames[OF refl,
          where s = "\<lparr>nextValue = n, block = b, enclosing = fs @ enc0, replacements = rp\<rparr>"
            and b = b and fs = fs and ?enc0.0 = enc0]
  by simp

lemma stridedValues_eq_Nil [simp]: "stridedValues ty n m = [] \<longleftrightarrow> m = 0"
  by (cases m) simp_all

lemma consecutiveValues_eq_Nil [simp]: "consecutiveValues n m = [] \<longleftrightarrow> m = 0"
  by (cases m) simp_all

lemma broadcast_pattern_code:
  assumes "opName oper = tcp_broadcast_to" "operands oper = x # shp # os"
    "results oper = r # rs" "getType r = RankedTensorType rdims et"
    "getType x = RankedTensorType idims iet"
    "operands' = m # ms" "getType m = MemRefType mdims met"
    "length idims \<le> length rdims"
  shows "LowerBroadcastToToLoopsPattern_matchAndRewrite oper operands' s =
     Inr (success,
          s\<lparr>nextValue := nextValue s + 4 + 3 * length rdims + 4 * length idims,
            block := block s @ broadcastCode (nextValue s) x shp m rdims et met (length idims),
            replacements := replacements s @ [(oper, [Value (nextValue s) (MemRefType rdims et)])]\<rparr>)"
proof -
  obtain n0 b0 e0 r0 where s: "s = \<lparr>nextValue = n0, block = b0, enclosing = e0, replacements = r0\<rparr>"
    by (cases s)
  show ?thesis
  proof (cases "rdims = []")
    case True
    then have "idims = []"
      using assms by simp
    with True show ?thesis
      unfolding LowerBroadcastToToLoopsPattern_matchAndRewrite_def
      using assms
      by (simp add: s castRankedTensorType_def allocateResults_broadcast
        outputExtents_loop_0[of 0, simplified]
        inputDimRequiresBroadcasting_loop_0[of 0 0, simplified]
        createLoops_loop_0[of _ 0, simplified] inputIndices_loop_0[of 0 0, simplified]
        create_ConstantIndexOp_eq create_LoadOp_def castMemRefType_def newValue_def insertOp_def
        create_StoreOp_def replaceOp_def Let_def restoreInsertionPoint_done
        broadcastCode_def broadcastBody_def)
  next
    case False
    show ?thesis
      unfolding LowerBroadcastToToLoopsPattern_matchAndRewrite_def
      using assms False
      by (simp add: s castRankedTensorType_def allocateResults_broadcast outputExtents_loop_0
        inputDimRequiresBroadcasting_loop_0 createLoops_loop_0 inputIndices_loop_0
        create_ConstantIndexOp_eq create_LoadOp_def castMemRefType_def newValue_def insertOp_def
        create_StoreOp_def replaceOp_def Let_def restoreInsertionPoint_explicit
        closeFrames_loopFrames_ne broadcastCode_def broadcastBody_def add_ac)
  qed
qed

section \<open>Running the generated code\<close>

lemma extentsOf_cong:
  "env t' v = env t v \<Longrightarrow> store t' = store t \<Longrightarrow> extentsOf t' v = extentsOf t v"
  by (simp add: extentsOf_def split: option.splits rtval.splits)

lemma getIndex_cong: "env t' v = env t v \<Longrightarrow> getIndex t' v = getIndex t v"
  by (simp add: getIndex_def)

lemma getIndex_IndexVal: "env t v = Some (IndexVal n) \<Longrightarrow> getIndex t v = Inr n"
  by (simp add: getIndex_def)

lemma getIndices_nth:
  "length vs = length xs \<Longrightarrow> (\<forall>k < length vs. env t (vs ! k) = Some (IndexVal (xs ! k))) \<Longrightarrow>
   getIndices t vs = Inr xs"
proof (induction vs arbitrary: xs)
  case Nil
  then show ?case by simp
next
  case (Cons v vs)
  then obtain y ys where xs: "xs = y # ys"
    by (cases xs) auto
  have h: "env t v = Some (IndexVal y)"
    using Cons.prems(2) xs by (auto dest: spec[of _ 0])
  have "\<forall>k < length vs. env t (vs ! k) = Some (IndexVal (ys ! k))"
    using Cons.prems(2) xs by (auto dest: spec[of _ "Suc k" for k])
  then have "getIndices t vs = Inr ys"
    using Cons.prems(1) xs by (intro Cons.IH) simp_all
  then show ?case
    using h xs by (simp add: getIndex_IndexVal)
qed

lemma exec_extentOps:
  assumes "env t sh = Some (ShapeVal oext)" "valueId sh < n" "0 \<le> i" "nat i + m \<le> length oext"
  shows "\<exists>t'. exec_block (extentOps n sh i m) t = Inr t' \<and>
           store t' = store t \<and> nextBuffer t' = nextBuffer t \<and>
           (\<forall>v. valueId v < n \<longrightarrow> env t' v = env t v) \<and>
           (\<forall>k < m. env t' (Value (n + 2 * k + 1) IndexType) = Some (IndexVal (oext ! (nat i + k))))"
  using assms
proof (induction m arbitrary: n i t)
  case 0
  then show ?case by simp
next
  case (Suc m)
  let ?a = "Value n IndexType" and ?b = "Value (Suc n) IndexType"
  let ?t2 = "bindValue ?b (IndexVal (oext ! nat i)) (bindValue ?a (IndexVal i) t)"
  have ne: "sh \<noteq> ?a" "sh \<noteq> ?b"
    using Suc.prems(2) by (auto simp: fresh_neq')
  have ib: "i < int (length oext)"
    using Suc.prems(3,4) by linarith
  have step: "exec_block (extentOps n sh i (Suc m)) t = exec_block (extentOps (Suc (Suc n)) sh (i + 1) m) ?t2"
    using Suc.prems ne ib by (simp add: bindValue_def getIndex_def)
  have "\<exists>t'. exec_block (extentOps (Suc (Suc n)) sh (i + 1) m) ?t2 = Inr t' \<and>
           store t' = store ?t2 \<and> nextBuffer t' = nextBuffer ?t2 \<and>
           (\<forall>v. valueId v < Suc (Suc n) \<longrightarrow> env t' v = env ?t2 v) \<and>
           (\<forall>k < m. env t' (Value (Suc (Suc n) + 2 * k + 1) IndexType) =
                      Some (IndexVal (oext ! (nat (i + 1) + k))))"
    using Suc.prems ne by (intro Suc.IH) (simp_all add: bindValue_def)
  then obtain t' where r: "exec_block (extentOps (Suc (Suc n)) sh (i + 1) m) ?t2 = Inr t'"
    and st: "store t' = store ?t2" "nextBuffer t' = nextBuffer ?t2"
    and low: "\<forall>v. valueId v < Suc (Suc n) \<longrightarrow> env t' v = env ?t2 v"
    and hi: "\<forall>k < m. env t' (Value (Suc (Suc n) + 2 * k + 1) IndexType) =
                      Some (IndexVal (oext ! (nat (i + 1) + k)))"
    by blast
  have ni: "nat (i + 1) = Suc (nat i)"
    using Suc.prems(3) by simp
  have "\<forall>k < Suc m. env t' (Value (n + 2 * k + 1) IndexType) = Some (IndexVal (oext ! (nat i + k)))"
  proof (intro allI impI)
    fix k assume k: "k < Suc m"
    show "env t' (Value (n + 2 * k + 1) IndexType) = Some (IndexVal (oext ! (nat i + k)))"
    proof (cases k)
      case 0
      then show ?thesis using low by (simp add: bindValue_def)
    next
      case (Suc k')
      then show ?thesis using hi k ni by simp
    qed
  qed
  moreover have "\<forall>v. valueId v < n \<longrightarrow> env t' v = env t v"
    using low by (auto simp: bindValue_def)
  ultimately show ?case
    using step r st by (simp add: bindValue_def)
qed

lemma exec_flagOps:
  assumes "extentsOf t x = Inr iext" "valueId x < n"
    "\<forall>k < m. env t (oe ! (j + k)) = Some (IndexVal (oext ! (j + k))) \<and> valueId (oe ! (j + k)) < n"
    "0 \<le> i" "nat i + m \<le> length iext"
  shows "\<exists>t'. exec_block (flagOps n x oe j i m) t = Inr t' \<and>
           store t' = store t \<and> nextBuffer t' = nextBuffer t \<and>
           (\<forall>v. valueId v < n \<longrightarrow> env t' v = env t v) \<and>
           (\<forall>k < m. env t' (Value (n + 2 * k + 1) (IntegerType 1)) =
                      Some (BoolVal (iext ! (nat i + k) \<noteq> oext ! (j + k))))"
  using assms
proof (induction m arbitrary: n i j t)
  case 0
  then show ?case by simp
next
  case (Suc m)
  let ?a = "Value n IndexType" and ?b = "Value (Suc n) (IntegerType 1)"
  let ?t2 = "bindValue ?b (BoolVal (iext ! nat i \<noteq> oext ! j)) (bindValue ?a (IndexVal (iext ! nat i)) t)"
  have ne: "x \<noteq> ?a" "x \<noteq> ?b"
    using Suc.prems(2) by (auto simp: fresh_neq')
  have o0: "env t (oe ! j) = Some (IndexVal (oext ! j))" "valueId (oe ! j) < n"
    using Suc.prems(3) by (auto dest: spec[of _ 0])
  then have ne0: "oe ! j \<noteq> ?a"
    by (auto simp: fresh_neq')
  have ib: "i < int (length iext)"
    using Suc.prems(4,5) by linarith
  have step: "exec_block (flagOps n x oe j i (Suc m)) t =
              exec_block (flagOps (Suc (Suc n)) x oe (Suc j) (i + 1) m) ?t2"
    using Suc.prems ne o0 ne0 ib by (simp add: bindValue_def getIndex_def)
  have ex: "extentsOf ?t2 x = Inr iext"
    using Suc.prems(1) ne by simp
  have oth: "\<forall>k < m. env ?t2 (oe ! (Suc j + k)) = Some (IndexVal (oext ! (Suc j + k))) \<and>
                      valueId (oe ! (Suc j + k)) < Suc (Suc n)"
  proof (intro allI impI)
    fix k assume "k < m"
    then have a: "env t (oe ! (j + Suc k)) = Some (IndexVal (oext ! (j + Suc k)))"
      and b: "valueId (oe ! (j + Suc k)) < n"
      using Suc.prems(3) by (auto dest: spec[of _ "Suc k"])
    from b have "oe ! (j + Suc k) \<noteq> ?a" "oe ! (j + Suc k) \<noteq> ?b"
      by (auto simp: fresh_neq')
    with a b show "env ?t2 (oe ! (Suc j + k)) = Some (IndexVal (oext ! (Suc j + k))) \<and>
                      valueId (oe ! (Suc j + k)) < Suc (Suc n)"
      by (simp add: bindValue_def)
  qed
  have "\<exists>t'. exec_block (flagOps (Suc (Suc n)) x oe (Suc j) (i + 1) m) ?t2 = Inr t' \<and>
           store t' = store ?t2 \<and> nextBuffer t' = nextBuffer ?t2 \<and>
           (\<forall>v. valueId v < Suc (Suc n) \<longrightarrow> env t' v = env ?t2 v) \<and>
           (\<forall>k < m. env t' (Value (Suc (Suc n) + 2 * k + 1) (IntegerType 1)) =
                      Some (BoolVal (iext ! (nat (i + 1) + k) \<noteq> oext ! (Suc j + k))))"
    using Suc.prems(2,4,5) by (intro Suc.IH[OF ex _ oth]) simp_all
  then obtain t' where r: "exec_block (flagOps (Suc (Suc n)) x oe (Suc j) (i + 1) m) ?t2 = Inr t'"
    and st: "store t' = store ?t2" "nextBuffer t' = nextBuffer ?t2"
    and low: "\<forall>v. valueId v < Suc (Suc n) \<longrightarrow> env t' v = env ?t2 v"
    and hi: "\<forall>k < m. env t' (Value (Suc (Suc n) + 2 * k + 1) (IntegerType 1)) =
                      Some (BoolVal (iext ! (nat (i + 1) + k) \<noteq> oext ! (Suc j + k)))"
    by blast
  have ni: "nat (i + 1) = Suc (nat i)"
    using Suc.prems(4) by simp
  have "\<forall>k < Suc m. env t' (Value (n + 2 * k + 1) (IntegerType 1)) =
                      Some (BoolVal (iext ! (nat i + k) \<noteq> oext ! (j + k)))"
  proof (intro allI impI)
    fix k assume k: "k < Suc m"
    show "env t' (Value (n + 2 * k + 1) (IntegerType 1)) =
            Some (BoolVal (iext ! (nat i + k) \<noteq> oext ! (j + k)))"
    proof (cases k)
      case 0
      then show ?thesis using low by (simp add: bindValue_def)
    next
      case (Suc k')
      then show ?thesis using hi k ni by simp
    qed
  qed
  moreover have "\<forall>v. valueId v < n \<longrightarrow> env t' v = env t v"
    using low by (auto simp: bindValue_def)
  ultimately show ?case
    using step r st by (simp add: bindValue_def)
qed

lemma exec_selectOps:
  assumes "\<forall>k < m. env t (fl ! (i + k)) = Some (BoolVal (F (i + k))) \<and> valueId (fl ! (i + k)) < n"
    "\<forall>k < m. env t (ivs ! (j + k)) = Some (IndexVal (J ! (j + k))) \<and> valueId (ivs ! (j + k)) < n"
  shows "\<exists>t'. exec_block (selectOps n fl ivs j i m) t = Inr t' \<and>
           store t' = store t \<and> nextBuffer t' = nextBuffer t \<and>
           (\<forall>v. valueId v < n \<longrightarrow> env t' v = env t v) \<and>
           (\<forall>k < m. env t' (Value (n + 2 * k + 1) IndexType) =
                      Some (IndexVal (if F (i + k) then 0 else J ! (j + k))))"
  using assms
proof (induction m arbitrary: n i j t)
  case 0
  then show ?case by simp
next
  case (Suc m)
  let ?a = "Value n IndexType" and ?b = "Value (Suc n) IndexType"
  let ?t2 = "bindValue ?b (IndexVal (if F i then 0 else J ! j)) (bindValue ?a (IndexVal 0) t)"
  have f0: "env t (fl ! i) = Some (BoolVal (F i))" "valueId (fl ! i) < n"
    and v0: "env t (ivs ! j) = Some (IndexVal (J ! j))" "valueId (ivs ! j) < n"
    using Suc.prems by (auto dest: spec[of _ 0])
  then have ne0: "fl ! i \<noteq> ?a" "ivs ! j \<noteq> ?a"
    by (auto simp: fresh_neq')
  have step: "exec_block (selectOps n fl ivs j i (Suc m)) t =
              exec_block (selectOps (Suc (Suc n)) fl ivs (Suc j) (Suc i) m) ?t2"
    using f0 v0 ne0 by (simp add: bindValue_def)
  have a1: "\<forall>k < m. env ?t2 (fl ! (Suc i + k)) = Some (BoolVal (F (Suc i + k))) \<and>
                     valueId (fl ! (Suc i + k)) < Suc (Suc n)"
  proof (intro allI impI)
    fix k assume "k < m"
    then have a: "env t (fl ! (i + Suc k)) = Some (BoolVal (F (i + Suc k)))"
      and b: "valueId (fl ! (i + Suc k)) < n"
      using Suc.prems(1) by (auto dest: spec[of _ "Suc k"])
    from b have "fl ! (i + Suc k) \<noteq> ?a" "fl ! (i + Suc k) \<noteq> ?b"
      by (auto simp: fresh_neq')
    with a b show "env ?t2 (fl ! (Suc i + k)) = Some (BoolVal (F (Suc i + k))) \<and>
                     valueId (fl ! (Suc i + k)) < Suc (Suc n)"
      by (simp add: bindValue_def)
  qed
  have a2: "\<forall>k < m. env ?t2 (ivs ! (Suc j + k)) = Some (IndexVal (J ! (Suc j + k))) \<and>
                     valueId (ivs ! (Suc j + k)) < Suc (Suc n)"
  proof (intro allI impI)
    fix k assume "k < m"
    then have a: "env t (ivs ! (j + Suc k)) = Some (IndexVal (J ! (j + Suc k)))"
      and b: "valueId (ivs ! (j + Suc k)) < n"
      using Suc.prems(2) by (auto dest: spec[of _ "Suc k"])
    from b have "ivs ! (j + Suc k) \<noteq> ?a" "ivs ! (j + Suc k) \<noteq> ?b"
      by (auto simp: fresh_neq')
    with a b show "env ?t2 (ivs ! (Suc j + k)) = Some (IndexVal (J ! (Suc j + k))) \<and>
                     valueId (ivs ! (Suc j + k)) < Suc (Suc n)"
      by (simp add: bindValue_def)
  qed
  from Suc.IH[OF a1 a2]
  obtain t' where r: "exec_block (selectOps (Suc (Suc n)) fl ivs (Suc j) (Suc i) m) ?t2 = Inr t'"
    and st: "store t' = store ?t2" "nextBuffer t' = nextBuffer ?t2"
    and low: "\<forall>v. valueId v < Suc (Suc n) \<longrightarrow> env t' v = env ?t2 v"
    and hi: "\<forall>k < m. env t' (Value (Suc (Suc n) + 2 * k + 1) IndexType) =
                      Some (IndexVal (if F (Suc i + k) then 0 else J ! (Suc j + k)))"
    by blast
  have "\<forall>k < Suc m. env t' (Value (n + 2 * k + 1) IndexType) =
                      Some (IndexVal (if F (i + k) then 0 else J ! (j + k)))"
  proof (intro allI impI)
    fix k assume k: "k < Suc m"
    show "env t' (Value (n + 2 * k + 1) IndexType) =
            Some (IndexVal (if F (i + k) then 0 else J ! (j + k)))"
    proof (cases k)
      case 0
      then show ?thesis using low by (simp add: bindValue_def)
    next
      case (Suc k')
      then show ?thesis using hi k by simp
    qed
  qed
  moreover have "\<forall>v. valueId v < n \<longrightarrow> env t' v = env t v"
    using low by (auto simp: bindValue_def)
  ultimately show ?case
    using step r st by (simp add: bindValue_def)
qed

lemma getBuffer_eq:
  "env t v = Some (MemRefVal b) \<Longrightarrow> store t b = Some buf \<Longrightarrow> getBuffer t v = Inr (b, buf)"
  by (simp add: getBuffer_def)

lemma exec_broadcastBody:
  assumes fl: "\<forall>k < Q. env t (fl ! k) = Some (BoolVal (F k)) \<and> valueId (fl ! k) < tb"
    and iv: "\<forall>k < length ivs. env t (ivs ! k) = Some (IndexVal (J ! k)) \<and> valueId (ivs ! k) < tb"
    and lenJ: "length J = length ivs"
    and QR: "Q \<le> length ivs"
    and m: "env t m = Some (MemRefVal bi)" "store t bi = Some ibuf" "valueId m < tb"
    and buf: "env t buf = Some (MemRefVal bo)" "store t bo = Some obuf" "valueId buf < tb"
    and inb: "inBounds (extents ibuf) (map (\<lambda>k. if F k then 0 else J ! (length ivs - Q + k)) [0..<Q])"
    and init: "cells ibuf (map (\<lambda>k. if F k then 0 else J ! (length ivs - Q + k)) [0..<Q]) = Some xv"
    and outb: "inBounds (extents obuf) J"
  shows "\<exists>t'. exec_block (broadcastBody tb m buf met fl ivs (length ivs) Q) t = Inr t' \<and>
           (\<forall>v. valueId v < tb \<longrightarrow> env t' v = env t v) \<and>
           nextBuffer t' = nextBuffer t \<and>
           store t' = (store t)(bo \<mapsto> obuf\<lparr>cells := (cells obuf)(J \<mapsto> xv)\<rparr>)"
proof -
  let ?R = "length ivs"
  let ?idx = "map (\<lambda>k. if F k then 0 else J ! (?R - Q + k)) [0..<Q]"
  let ?ld = "Value (tb + 2 * Q) met"
  have a1: "\<forall>k < Q. env t (fl ! (0 + k)) = Some (BoolVal (F (0 + k))) \<and> valueId (fl ! (0 + k)) < tb"
    using fl by simp
  have a2: "\<forall>k < Q. env t (ivs ! (?R - Q + k)) = Some (IndexVal (J ! (?R - Q + k))) \<and>
                     valueId (ivs ! (?R - Q + k)) < tb"
    using iv QR by auto
  from exec_selectOps[OF a1 a2]
  obtain t1 where r1: "exec_block (selectOps tb fl ivs (?R - Q) 0 Q) t = Inr t1"
    and st1: "store t1 = store t" "nextBuffer t1 = nextBuffer t"
    and low1: "\<forall>v. valueId v < tb \<longrightarrow> env t1 v = env t v"
    and hi1: "\<forall>k < Q. env t1 (Value (tb + 2 * k + 1) IndexType) =
                      Some (IndexVal (if F (0 + k) then 0 else J ! (?R - Q + k)))"
    by blast
  have gi: "getIndices t1 (stridedValues IndexType tb Q) = Inr ?idx"
    using hi1 by (intro getIndices_nth) (simp_all add: stridedValues_nth)
  have gm: "getBuffer t1 m = Inr (bi, ibuf)"
    using m low1 st1 by (intro getBuffer_eq) simp_all
  let ?t2 = "bindValue ?ld (ElemVal xv) t1"
  have load: "exec_simple (LoadOp ?ld m (stridedValues IndexType tb Q)) t1 = Inr ?t2"
    using gi gm inb init by simp
  have nb: "buf \<noteq> ?ld"
    using buf(3) by (auto simp: fresh_neq')
  have gb: "getBuffer ?t2 buf = Inr (bo, obuf)"
    using buf low1 st1 nb by (intro getBuffer_eq) (simp_all add: bindValue_def)
  have "\<forall>k < length ivs. env ?t2 (ivs ! k) = Some (IndexVal (J ! k))"
  proof (intro allI impI)
    fix k assume k: "k < length ivs"
    then have "valueId (ivs ! k) < tb" and e: "env t (ivs ! k) = Some (IndexVal (J ! k))"
      using iv by auto
    then have "ivs ! k \<noteq> ?ld" "env t1 (ivs ! k) = env t (ivs ! k)"
      using low1 by (auto simp: fresh_neq')
    with e show "env ?t2 (ivs ! k) = Some (IndexVal (J ! k))"
      by (simp add: bindValue_def)
  qed
  then have gj: "getIndices ?t2 ivs = Inr J"
    using lenJ by (intro getIndices_nth) simp_all
  let ?t3 = "?t2\<lparr>store := (store ?t2)(bo \<mapsto> obuf\<lparr>cells := (cells obuf)(J \<mapsto> xv)\<rparr>)\<rparr>"
  have store: "exec_simple (StoreOp ?ld buf ivs) ?t2 = Inr ?t3"
    using gb gj outb by (simp add: bindValue_def)
  have "exec_block (broadcastBody tb m buf met fl ivs ?R Q) t = Inr ?t3"
    unfolding broadcastBody_def exec_block_append r1
    using load store by simp
  moreover have "\<forall>v. valueId v < tb \<longrightarrow> env ?t3 v = env t v"
    using low1 by (auto simp: bindValue_def)
  moreover have "nextBuffer ?t3 = nextBuffer t"
    using st1 by (simp add: bindValue_def)
  moreover have "store ?t3 = (store t)(bo \<mapsto> obuf\<lparr>cells := (cells obuf)(J \<mapsto> xv)\<rparr>)"
    using st1 by (simp add: bindValue_def)
  ultimately show ?thesis
    by blast
qed

lemma covered_Suc:
  assumes "k < length oext" "length J = k" "0 \<le> i" "i < oext ! k"
  shows "covered oext (Suc k) (J @ [i]) j \<longleftrightarrow> covered oext k J j \<and> j ! k = i"
proof
  assume c: "covered oext (Suc k) (J @ [i]) j"
  then have len: "length j = length oext" and tk: "take (Suc k) j = J @ [i]"
    and b: "\<forall>q. Suc k \<le> q \<and> q < length oext \<longrightarrow> 0 \<le> j ! q \<and> j ! q < oext ! q"
    by (auto simp: covered_def)
  from tk len assms(1) have "take k j @ [j ! k] = J @ [i]"
    by (simp add: take_Suc_conv_app_nth)
  then have t: "take k j = J" and jk: "j ! k = i"
    by auto
  have "\<forall>q. k \<le> q \<and> q < length oext \<longrightarrow> 0 \<le> j ! q \<and> j ! q < oext ! q"
  proof (intro allI impI)
    fix q assume q: "k \<le> q \<and> q < length oext"
    show "0 \<le> j ! q \<and> j ! q < oext ! q"
    proof (cases "q = k")
      case True
      then show ?thesis using jk assms(3,4) by simp
    next
      case False
      then show ?thesis using q b by auto
    qed
  qed
  with len t jk show "covered oext k J j \<and> j ! k = i"
    by (simp add: covered_def)
next
  assume c: "covered oext k J j \<and> j ! k = i"
  then have len: "length j = length oext" and t: "take k j = J" and jk: "j ! k = i"
    and b: "\<forall>q. k \<le> q \<and> q < length oext \<longrightarrow> 0 \<le> j ! q \<and> j ! q < oext ! q"
    by (auto simp: covered_def)
  have "take (Suc k) j = J @ [i]"
    using len assms(1) t jk by (simp add: take_Suc_conv_app_nth)
  with len b show "covered oext (Suc k) (J @ [i]) j"
    by (simp add: covered_def)
qed

lemma covered_full: "length J = length oext \<Longrightarrow> covered oext (length oext) J j \<longleftrightarrow> j = J"
  by (auto simp: covered_def)

lemma tripCount_unit: "0 \<le> u \<Longrightarrow> tripCount 0 u 1 = nat u"
  by (simp add: tripCount_def)

lemma loop_nest_exec:
  fixes P :: "'e rt_state \<Rightarrow> bool" and src :: "int list \<Rightarrow> 'e"
  assumes len: "length oe = length oext"
    and nonneg: "\<forall>q < length oext. 0 \<le> oext ! q"
    and P0: "\<And>t. P t \<Longrightarrow> env t c0 = Some (IndexVal 0)"
    and P1: "\<And>t. P t \<Longrightarrow> env t c1 = Some (IndexVal 1)"
    and Poe: "\<And>t q. P t \<Longrightarrow> q < length oext \<Longrightarrow> env t (oe ! q) = Some (IndexVal (oext ! q))"
    and Ppres: "\<And>t t'. P t \<Longrightarrow> (\<forall>v. valueId v < ivb \<longrightarrow> env t' v = env t v) \<Longrightarrow>
                  (\<forall>b. b \<noteq> bo \<longrightarrow> store t' b = store t b) \<Longrightarrow> P t'"
    and body: "\<And>t J ob. P t \<Longrightarrow> length J = length oext \<Longrightarrow>
                  (\<forall>q < length oext. env t (Value (ivb + q) IndexType) = Some (IndexVal (J ! q))) \<Longrightarrow>
                  (\<forall>q < length oext. 0 \<le> J ! q \<and> J ! q < oext ! q) \<Longrightarrow>
                  store t bo = Some ob \<Longrightarrow> extents ob = oext \<Longrightarrow>
                  \<exists>t'. exec_block body t = Inr t' \<and>
                       (\<forall>v. valueId v < ivb + length oext \<longrightarrow> env t' v = env t v) \<and>
                       nextBuffer t' = nextBuffer t \<and>
                       store t' = (store t)(bo \<mapsto> ob\<lparr>cells := (cells ob)(J \<mapsto> src J)\<rparr>)"
    and Pt: "P t"
    and J: "length J = k" "k \<le> length oext"
      "\<forall>q < k. env t (Value (ivb + q) IndexType) = Some (IndexVal (J ! q))"
      "\<forall>q < k. 0 \<le> J ! q \<and> J ! q < oext ! q"
    and ob: "store t bo = Some ob" "extents ob = oext"
  shows "\<exists>t' ob'.
           exec_block (loopNest c0 c1 (drop k (zip oe (consecutiveValues ivb (length oext)))) body) t = Inr t' \<and>
           (\<forall>v. valueId v < ivb + k \<longrightarrow> env t' v = env t v) \<and>
           nextBuffer t' = nextBuffer t \<and>
           store t' = (store t)(bo \<mapsto> ob') \<and> extents ob' = oext \<and>
           (\<forall>j. cells ob' j = (if covered oext k J j then Some (src j) else cells ob j))"
  using Pt J ob
proof (induction "length oext - k" arbitrary: k J t ob)
  case 0
  then have k: "k = length oext"
    by simp
  from body[OF "0.prems"(1) "0.prems"(2)[unfolded k] "0.prems"(4)[unfolded k] "0.prems"(5)[unfolded k]
            "0.prems"(6,7)]
  obtain t' where r: "exec_block body t = Inr t'"
    and low: "\<forall>v. valueId v < ivb + length oext \<longrightarrow> env t' v = env t v"
    and nb: "nextBuffer t' = nextBuffer t"
    and st: "store t' = (store t)(bo \<mapsto> ob\<lparr>cells := (cells ob)(J \<mapsto> src J)\<rparr>)"
    by blast
  have cc: "\<forall>j. cells (ob\<lparr>cells := (cells ob)(J \<mapsto> src J)\<rparr>) j =
             (if covered oext k J j then Some (src j) else cells ob j)"
    using "0.prems"(2) by (simp add: k covered_full)
  show ?case
  proof (intro exI conjI)
    show "exec_block (loopNest c0 c1 (drop k (zip oe (consecutiveValues ivb (length oext)))) body) t = Inr t'"
      using r len by (simp add: k)
    show "\<forall>v. valueId v < ivb + k \<longrightarrow> env t' v = env t v"
      using low by (simp add: k)
    show "nextBuffer t' = nextBuffer t"
      by fact
    show "store t' = (store t)(bo \<mapsto> ob\<lparr>cells := (cells ob)(J \<mapsto> src J)\<rparr>)"
      by fact
    show "extents (ob\<lparr>cells := (cells ob)(J \<mapsto> src J)\<rparr>) = oext"
      using "0.prems"(7) by simp
    show "\<forall>j. cells (ob\<lparr>cells := (cells ob)(J \<mapsto> src J)\<rparr>) j =
             (if covered oext k J j then Some (src j) else cells ob j)"
      by fact
  qed
next
  case (Suc d)
  let ?R = "length oext"
  let ?hs = "zip oe (consecutiveValues ivb ?R)"
  let ?iv = "Value (ivb + k) IndexType"
  let ?inner = "loopNest c0 c1 (drop (Suc k) ?hs) body"
  have kR: "k < ?R"
    using Suc.hyps(2) by simp
  have d: "d = ?R - Suc k"
    using Suc.hyps(2) by simp
  have hk: "drop k ?hs = (oe ! k, ?iv) # drop (Suc k) ?hs"
    using kR len by (simp add: Cons_nth_drop_Suc[symmetric] consecutiveValues_nth)
  have ub: "0 \<le> oext ! k"
    using nonneg kR by simp
  have iter: "\<exists>t' ob'.
           exec_iters ?inner ?iv 1 c i t = Inr t' \<and>
           (\<forall>v. valueId v < ivb + k \<longrightarrow> env t' v = env t v) \<and>
           nextBuffer t' = nextBuffer t \<and>
           store t' = (store t)(bo \<mapsto> ob') \<and> extents ob' = oext \<and>
           (\<forall>j. cells ob' j =
                  (if covered oext k J j \<and> i \<le> j ! k \<and> j ! k < i + int c then Some (src j)
                   else cells ob j))"
    if "P t" "0 \<le> i" "i + int c \<le> oext ! k"
      "\<forall>q < k. env t (Value (ivb + q) IndexType) = Some (IndexVal (J ! q))"
      "store t bo = Some ob" "extents ob = oext"
    for c i and t :: "'e rt_state" and ob
    using that
  proof (induction c arbitrary: i t ob)
    case 0
    have st0: "store t = (store t)(bo \<mapsto> ob)"
      using "0.prems"(5) by (simp add: fun_upd_idem)
    show ?case
    proof (intro exI conjI)
      show "exec_iters ?inner ?iv 1 0 i t = Inr t"
        by simp
      show "store t = (store t)(bo \<mapsto> ob)"
        by (rule st0)
      show "extents ob = oext"
        by (rule "0.prems"(6))
    qed auto
  next
    case (Suc c)
    let ?t1 = "bindValue ?iv (IndexVal i) t"
    have P1': "P ?t1"
      using Suc.prems(1) by (rule Ppres) (auto simp: bindValue_def)
    have b1: "\<forall>q < Suc k. env ?t1 (Value (ivb + q) IndexType) = Some (IndexVal ((J @ [i]) ! q))"
    proof (intro allI impI)
      fix q assume "q < Suc k"
      then show "env ?t1 (Value (ivb + q) IndexType) = Some (IndexVal ((J @ [i]) ! q))"
        using Suc.prems(4) \<open>length J = k\<close>
        by (cases "q = k") (auto simp: bindValue_def nth_append)
    qed
    have b2: "\<forall>q < Suc k. 0 \<le> (J @ [i]) ! q \<and> (J @ [i]) ! q < oext ! q"
    proof (intro allI impI)
      fix q assume "q < Suc k"
      then show "0 \<le> (J @ [i]) ! q \<and> (J @ [i]) ! q < oext ! q"
        using \<open>\<forall>q < k. 0 \<le> J ! q \<and> J ! q < oext ! q\<close> \<open>length J = k\<close> Suc.prems(2,3)
        by (cases "q = k") (auto simp: nth_append)
    qed
    have "\<exists>t' ob'.
           exec_block (loopNest c0 c1 (drop (Suc k) ?hs) body) ?t1 = Inr t' \<and>
           (\<forall>v. valueId v < ivb + Suc k \<longrightarrow> env t' v = env ?t1 v) \<and>
           nextBuffer t' = nextBuffer ?t1 \<and>
           store t' = (store ?t1)(bo \<mapsto> ob') \<and> extents ob' = oext \<and>
           (\<forall>j. cells ob' j = (if covered oext (Suc k) (J @ [i]) j then Some (src j) else cells ob j))"
      using kR \<open>length J = k\<close> Suc.prems(5,6)
      by (intro Suc.hyps(1)[OF d P1' _ _ b1 b2]) (simp_all add: bindValue_def)
    then obtain t2 ob2 where r2: "exec_block ?inner ?t1 = Inr t2"
      and low2: "\<forall>v. valueId v < ivb + Suc k \<longrightarrow> env t2 v = env ?t1 v"
      and nb2: "nextBuffer t2 = nextBuffer ?t1"
      and st2: "store t2 = (store ?t1)(bo \<mapsto> ob2)" and ex2: "extents ob2 = oext"
      and c2: "\<forall>j. cells ob2 j = (if covered oext (Suc k) (J @ [i]) j then Some (src j) else cells ob j)"
      by blast
    have P2: "P t2"
      using Suc.prems(1)
    proof (rule Ppres)
      show "\<forall>v. valueId v < ivb \<longrightarrow> env t2 v = env t v"
        using low2 by (auto simp: bindValue_def)
      show "\<forall>b. b \<noteq> bo \<longrightarrow> store t2 b = store t b"
        using st2 by (simp add: bindValue_def)
    qed
    have b3: "\<forall>q < k. env t2 (Value (ivb + q) IndexType) = Some (IndexVal (J ! q))"
      using low2 Suc.prems(4) by (auto simp: bindValue_def)
    have "\<exists>t' ob'.
           exec_iters ?inner ?iv 1 c (i + 1) t2 = Inr t' \<and>
           (\<forall>v. valueId v < ivb + k \<longrightarrow> env t' v = env t2 v) \<and>
           nextBuffer t' = nextBuffer t2 \<and>
           store t' = (store t2)(bo \<mapsto> ob') \<and> extents ob' = oext \<and>
           (\<forall>j. cells ob' j =
                  (if covered oext k J j \<and> i + 1 \<le> j ! k \<and> j ! k < i + 1 + int c then Some (src j)
                   else cells ob2 j))"
      using Suc.prems(2,3) st2 ex2
      by (intro Suc.IH[OF P2 _ _ b3]) simp_all
    then obtain t3 ob3 where r3: "exec_iters ?inner ?iv 1 c (i + 1) t2 = Inr t3"
      and low3: "\<forall>v. valueId v < ivb + k \<longrightarrow> env t3 v = env t2 v"
      and nb3: "nextBuffer t3 = nextBuffer t2"
      and st3: "store t3 = (store t2)(bo \<mapsto> ob3)" and ex3: "extents ob3 = oext"
      and c3: "\<forall>j. cells ob3 j =
                  (if covered oext k J j \<and> i + 1 \<le> j ! k \<and> j ! k < i + 1 + int c then Some (src j)
                   else cells ob2 j)"
      by blast
    have cs: "covered oext (Suc k) (J @ [i]) j \<longleftrightarrow> covered oext k J j \<and> j ! k = i" for j
      using kR \<open>length J = k\<close> Suc.prems(2,3) by (intro covered_Suc) simp_all
    have run: "exec_iters ?inner ?iv 1 (Suc c) i t = Inr t3"
      using r2 r3 by simp
    have e: "\<forall>v. valueId v < ivb + k \<longrightarrow> env t3 v = env t v"
      using low3 low2 by (auto simp: bindValue_def)
    have n: "nextBuffer t3 = nextBuffer t"
      using nb3 nb2 by (simp add: bindValue_def)
    have s: "store t3 = (store t)(bo \<mapsto> ob3)"
      using st3 st2 by (simp add: bindValue_def)
    have cc: "\<forall>j. cells ob3 j =
                  (if covered oext k J j \<and> i \<le> j ! k \<and> j ! k < i + int (Suc c) then Some (src j)
                   else cells ob j)"
      using c3 c2 cs by auto
    show ?case
      using run e n s ex3 cc by blast
  qed
  have Pt: "P t" by fact
  have "\<exists>t' ob'.
           exec_iters ?inner ?iv 1 (nat (oext ! k)) 0 t = Inr t' \<and>
           (\<forall>v. valueId v < ivb + k \<longrightarrow> env t' v = env t v) \<and>
           nextBuffer t' = nextBuffer t \<and>
           store t' = (store t)(bo \<mapsto> ob') \<and> extents ob' = oext \<and>
           (\<forall>j. cells ob' j =
                  (if covered oext k J j \<and> 0 \<le> j ! k \<and> j ! k < 0 + int (nat (oext ! k)) then Some (src j)
                   else cells ob j))"
    using ub Suc.prems by (intro iter) simp_all
  then obtain t' ob' where r: "exec_iters ?inner ?iv 1 (nat (oext ! k)) 0 t = Inr t'"
    and low: "\<forall>v. valueId v < ivb + k \<longrightarrow> env t' v = env t v"
    and nb: "nextBuffer t' = nextBuffer t"
    and st: "store t' = (store t)(bo \<mapsto> ob')" and ex: "extents ob' = oext"
    and c: "\<forall>j. cells ob' j =
                  (if covered oext k J j \<and> 0 \<le> j ! k \<and> j ! k < 0 + int (nat (oext ! k)) then Some (src j)
                   else cells ob j)"
    by blast
  have cov: "covered oext k J j \<and> 0 \<le> j ! k \<and> j ! k < 0 + int (nat (oext ! k)) \<longleftrightarrow> covered oext k J j"
    for j
    using kR ub by (auto simp: covered_def)
  have run: "exec_block (loopNest c0 c1 (drop k ?hs) body) t = Inr t'"
    using r P0[OF Pt] P1[OF Pt] Poe[OF Pt kR] ub
    by (simp add: hk getIndex_IndexVal tripCount_unit)
  show ?case
    using run low nb st ex c cov by auto
qed

lemma inBounds_nth:
  "inBounds ext idx \<longleftrightarrow> length idx = length ext \<and> (\<forall>q < length ext. 0 \<le> idx ! q \<and> idx ! q < ext ! q)"
  by (auto simp: inBounds_def list_all2_conv_all_nth)

lemma covered_all: "covered oext 0 [] j \<longleftrightarrow> inBounds oext j"
  by (auto simp: covered_def inBounds_nth)

lemma allocExtents_same:
  assumes "length rdims = length oext" "\<forall>q < length rdims. rdims ! q = -1 \<or> rdims ! q = oext ! q"
  shows "allocExtents rdims oext = oext"
  using assms by (intro nth_equalityI) (auto simp: allocExtents_def)

lemma broadcastIndex_inBounds:
  assumes "length iext \<le> length oext" "inBounds oext j"
    "\<forall>q < length iext. iext ! q = oext ! (length oext - length iext + q) \<or> 0 < iext ! q"
  shows "inBounds iext (broadcastIndex iext oext j)"
  using assms unfolding inBounds_nth broadcastIndex_def
  by (auto simp: Let_def)


lemma exec_block_append_Inr:
  "exec_block xs t = Inr t1 \<Longrightarrow> exec_block (xs @ ys) t = exec_block ys t1"
  by (simp add: exec_block_append)

lemma exec_block_Cons_Inr:
  "exec_op x t = Inr t1 \<Longrightarrow> exec_block (x # xs) t = exec_block xs t1"
  by simp

text \<open>
  Claim C1, as stated, fails where an input dimension of extent \<open>0\<close> is broadcast to a
  non-empty output: the read index for that dimension is the constant \<open>0\<close>, which is not an
  index of the input. The pattern rewrites the operation, and the generated loop faults on
  its first load.
\<close>

lemma ex_broadcast_empty_code:
  "LowerBroadcastToToLoopsPattern_matchAndRewrite ex_broadcast_empty
     [Value 3 (MemRefType [0] (FloatType 32))] ex_state =
   Inr (success,
     \<lparr>nextValue = 21,
      block =
        [AllocMemRefOp (Value 10 (MemRefType [-1] (FloatType 32))) (Value 1 (RankedTensorType [1] IndexType)),
         ConstantIndexOp (Value 11 IndexType) 0,
         GetExtentOp (Value 12 IndexType) (Value 1 (RankedTensorType [1] IndexType)) (Value 11 IndexType),
         DimOp (Value 13 IndexType) (Value 0 (RankedTensorType [0] (FloatType 32))) 0,
         CmpIOp (Value 14 (IntegerType 1)) cmp_ne (Value 13 IndexType) (Value 12 IndexType),
         ConstantIndexOp (Value 15 IndexType) 0,
         ConstantIndexOp (Value 16 IndexType) 1,
         ForOp (Value 15 IndexType) (Value 12 IndexType) (Value 16 IndexType) (Value 17 IndexType)
           [ConstantIndexOp (Value 18 IndexType) 0,
            SelectOp (Value 19 IndexType) (Value 14 (IntegerType 1)) (Value 18 IndexType) (Value 17 IndexType),
            LoadOp (Value 20 (FloatType 32)) (Value 3 (MemRefType [0] (FloatType 32))) [Value 19 IndexType],
            StoreOp (Value 20 (FloatType 32)) (Value 10 (MemRefType [-1] (FloatType 32))) [Value 17 IndexType]]],
      enclosing = [],
      replacements = [(ex_broadcast_empty, [Value 10 (MemRefType [-1] (FloatType 32))])]\<rparr>)"
proof -
  have "LowerBroadcastToToLoopsPattern_matchAndRewrite ex_broadcast_empty
     [Value 3 (MemRefType [0] (FloatType 32))] ex_state =
     Inr (success,
          ex_state\<lparr>nextValue := nextValue ex_state + 4 + 3 * length [-1::int] + 4 * length [0::int],
            block := block ex_state @
              broadcastCode (nextValue ex_state) (Value 0 (RankedTensorType [0] (FloatType 32)))
                (Value 1 (RankedTensorType [1] IndexType)) (Value 3 (MemRefType [0] (FloatType 32)))
                [-1] (FloatType 32) (FloatType 32) (length [0::int]),
            replacements := replacements ex_state @
              [(ex_broadcast_empty, [Value (nextValue ex_state) (MemRefType [-1] (FloatType 32))])]\<rparr>)"
    by (rule broadcast_pattern_code[where os = "[]" and rs = "[]" and ms = "[]" and mdims = "[0]"
          and iet = "FloatType 32" and r = "Value 2 (RankedTensorType [-1] (FloatType 32))"])
       (simp_all add: ex_broadcast_empty_def)
  then show ?thesis
    by (simp add: ex_state_def broadcastCode_def broadcastBody_def Let_def)
qed

theorem broadcast_empty_input_counterexample:
  "LowerBroadcastToToLoopsPattern_matchAndRewrite ex_broadcast_empty
     [Value 3 (MemRefType [0] (FloatType 32))] ex_state =
   Inr (success,
     \<lparr>nextValue = 21,
      block =
        [AllocMemRefOp (Value 10 (MemRefType [-1] (FloatType 32))) (Value 1 (RankedTensorType [1] IndexType)),
         ConstantIndexOp (Value 11 IndexType) 0,
         GetExtentOp (Value 12 IndexType) (Value 1 (RankedTensorType [1] IndexType)) (Value 11 IndexType),
         DimOp (Value 13 IndexType) (Value 0 (RankedTensorType [0] (FloatType 32))) 0,
         CmpIOp (Value 14 (IntegerType 1)) cmp_ne (Value 13 IndexType) (Value 12 IndexType),
         ConstantIndexOp (Value 15 IndexType) 0,
         ConstantIndexOp (Value 16 IndexType) 1,
         ForOp (Value 15 IndexType) (Value 12 IndexType) (Value 16 IndexType) (Value 17 IndexType)
           [ConstantIndexOp (Value 18 IndexType) 0,
            SelectOp (Value 19 IndexType) (Value 14 (IntegerType 1)) (Value 18 IndexType) (Value 17 IndexType),
            LoadOp (Value 20 (FloatType 32)) (Value 3 (MemRefType [0] (FloatType 32))) [Value 19 IndexType],
            StoreOp (Value 20 (FloatType 32)) (Value 10 (MemRefType [-1] (FloatType 32))) [Value 17 IndexType]]],
      enclosing = [],
      replacements = [(ex_broadcast_empty, [Value 10 (MemRefType [-1] (FloatType 32))])]\<rparr>) \<and>
   exec_block
     [AllocMemRefOp (Value 10 (MemRefType [-1] (FloatType 32))) (Value 1 (RankedTensorType [1] IndexType)),
      ConstantIndexOp (Value 11 IndexType) 0,
      GetExtentOp (Value 12 IndexType) (Value 1 (RankedTensorType [1] IndexType)) (Value 11 IndexType),
      DimOp (Value 13 IndexType) (Value 0 (RankedTensorType [0] (FloatType 32))) 0,
      CmpIOp (Value 14 (IntegerType 1)) cmp_ne (Value 13 IndexType) (Value 12 IndexType),
      ConstantIndexOp (Value 15 IndexType) 0,
      ConstantIndexOp (Value 16 IndexType) 1,
      ForOp (Value 15 IndexType) (Value 12 IndexType) (Value 16 IndexType) (Value 17 IndexType)
        [ConstantIndexOp (Value 18 IndexType) 0,
         SelectOp (Value 19 IndexType) (Value 14 (IntegerType 1)) (Value 18 IndexType) (Value 17 IndexType),
         LoadOp (Value 20 (FloatType 32)) (Value 3 (MemRefType [0] (FloatType 32))) [Value 19 IndexType],
         StoreOp (Value 20 (FloatType 32)) (Value 10 (MemRefType [-1] (FloatType 32))) [Value 17 IndexType]]]
     ex_rt_empty = Inl OutOfBounds"
proof (rule conjI)
  show "exec_block
     [AllocMemRefOp (Value 10 (MemRefType [-1] (FloatType 32))) (Value 1 (RankedTensorType [1] IndexType)),
      ConstantIndexOp (Value 11 IndexType) 0,
      GetExtentOp (Value 12 IndexType) (Value 1 (RankedTensorType [1] IndexType)) (Value 11 IndexType),
      DimOp (Value 13 IndexType) (Value 0 (RankedTensorType [0] (FloatType 32))) 0,
      CmpIOp (Value 14 (IntegerType 1)) cmp_ne (Value 13 IndexType) (Value 12 IndexType),
      ConstantIndexOp (Value 15 IndexType) 0,
      ConstantIndexOp (Value 16 IndexType) 1,
      ForOp (Value 15 IndexType) (Value 12 IndexType) (Value 16 IndexType) (Value 17 IndexType)
        [ConstantIndexOp (Value 18 IndexType) 0,
         SelectOp (Value 19 IndexType) (Value 14 (IntegerType 1)) (Value 18 IndexType) (Value 17 IndexType),
         LoadOp (Value 20 (FloatType 32)) (Value 3 (MemRefType [0] (FloatType 32))) [Value 19 IndexType],
         StoreOp (Value 20 (FloatType 32)) (Value 10 (MemRefType [-1] (FloatType 32))) [Value 17 IndexType]]]
     ex_rt_empty = Inl OutOfBounds"
    by (simp add: ex_rt_empty_def bindValue_def extentsOf_def getIndex_def getBuffer_def
        allocExtents_def tripCount_def inBounds_def eval_nat_numeral)
qed (rule ex_broadcast_empty_code)



text \<open>
  Claim C1, amended. Let a BroadcastTo with input rank \<open>R_in\<close> at most the output rank
  \<open>R_out\<close> be lowered by the pattern, and let the generated operations run in a state where
  the shape operand holds the output extents \<open>oext\<close> (non-negative, \<open>R_out\<close> of them, agreeing
  with the static dimensions of the result type), the tensor operand has the extents
  \<open>iext\<close>, and the converted operand is a buffer of these extents whose cells are all
  initialized. If every input dimension whose extent differs from the aligned output
  extent has a positive extent, then the pattern succeeds, the generated code runs to the
  end without fault, and the buffer that replaces the result has the extents \<open>oext\<close> and
  holds at every output index \<open>j\<close> the input element at \<open>broadcastIndex iext oext j\<close>:
  component \<open>k\<close> of it is \<open>0\<close> if \<open>iext ! k\<close> differs from \<open>oext ! (R_out - R_in + k)\<close>, and
  \<open>j ! (R_out - R_in + k)\<close> otherwise. The input buffer is left as it was.
\<close>

theorem broadcast_lowering_correct:
  fixes t :: "'e rt_state"
  assumes oper: "opName oper = tcp_broadcast_to" "operands oper = [x, shp]" "results oper = [r]"
      "getType r = RankedTensorType rdims et" "getType x = RankedTensorType idims iet"
      "operands' = m # ms" "getType m = MemRefType mdims met"
      "length idims \<le> length rdims"
    and fresh: "valueId x < nextValue s" "valueId shp < nextValue s" "valueId m < nextValue s"
    and shape: "env t shp = Some (ShapeVal oext)" "length oext = length rdims"
      "\<forall>q < length rdims. rdims ! q = -1 \<or> rdims ! q = oext ! q"
      "\<forall>q < length oext. 0 \<le> oext ! q"
    and input: "env t x = Some (TensorVal iext xc)" "length iext = length idims"
      "env t m = Some (MemRefVal bi)" "store t bi = Some ibuf" "extents ibuf = iext"
      "bi < nextBuffer t"
    and init: "\<forall>i. inBounds iext i \<longrightarrow> cells ibuf i \<noteq> None"
    and nonempty: "\<forall>q < length iext. iext ! q = oext ! (length oext - length iext + q) \<or> 0 < iext ! q"
  shows "\<exists>s' t' out obuf.
           LowerBroadcastToToLoopsPattern_matchAndRewrite oper operands' s = Inr (success, s') \<and>
           replacements s' = replacements s @ [(oper, [out])] \<and>
           exec_block (drop (length (block s)) (block s')) t = Inr t' \<and>
           env t' out = Some (MemRefVal (nextBuffer t)) \<and>
           store t' (nextBuffer t) = Some obuf \<and>
           extents obuf = oext \<and>
           (\<forall>j. inBounds oext j \<longrightarrow> cells obuf j = cells ibuf (broadcastIndex iext oext j)) \<and>
           store t' bi = Some ibuf"
proof -
  let ?n = "nextValue s" and ?R = "length rdims" and ?Q = "length idims"
  let ?bo = "nextBuffer t"
  let ?buf = "Value ?n (MemRefType rdims et)"
  let ?oe = "stridedValues IndexType (Suc ?n) ?R"
  let ?fl = "stridedValues (IntegerType 1) (Suc ?n + 2 * ?R) ?Q"
  let ?c0 = "Value (Suc ?n + 2 * ?R + 2 * ?Q) IndexType"
  let ?c1 = "Value (Suc (Suc ?n) + 2 * ?R + 2 * ?Q) IndexType"
  let ?ivb = "Suc (Suc (Suc ?n)) + 2 * ?R + 2 * ?Q"
  let ?ivs = "consecutiveValues ?ivb ?R"
  let ?body = "broadcastBody (?ivb + ?R) m ?buf met ?fl ?ivs ?R ?Q"
  let ?E = "extentOps (Suc ?n) shp 0 ?R"
  let ?F = "flagOps (Suc ?n + 2 * ?R) x ?oe (?R - ?Q) 0 ?Q"
  let ?nest = "loopNest ?c0 ?c1 (zip ?oe ?ivs) ?body"
  let ?Fl = "\<lambda>k. iext ! k \<noteq> oext ! (?R - ?Q + k)"
  let ?src = "\<lambda>j. the (cells ibuf (broadcastIndex iext oext j))"
  let ?s' = "s\<lparr>nextValue := ?n + 4 + 3 * ?R + 4 * ?Q,
              block := block s @ broadcastCode ?n x shp m rdims et met ?Q,
              replacements := replacements s @ [(oper, [?buf])]\<rparr>"
  have code: "LowerBroadcastToToLoopsPattern_matchAndRewrite oper operands' s = Inr (success, ?s')"
    using oper by (intro broadcast_pattern_code) simp_all
  have blk: "drop (length (block s)) (block ?s') =
               AllocMemRefOp ?buf shp # (?E @ (?F @ ([ConstantIndexOp ?c0 0, ConstantIndexOp ?c1 1] @ ?nest)))"
    by (simp add: broadcastCode_def Let_def)
  \<comment> \<open>the allocation\<close>
  let ?ob0 = "\<lparr>extents = oext, cells = Map.empty\<rparr> :: 'e buffer"
  let ?ta = "t\<lparr>env := (env t)(?buf \<mapsto> MemRefVal ?bo), store := (store t)(?bo \<mapsto> ?ob0),
                nextBuffer := Suc ?bo\<rparr>"
  have ae: "allocExtents rdims oext = oext"
    using shape(2,3) by (intro allocExtents_same) simp_all
  have alloc: "exec_op (AllocMemRefOp ?buf shp) t = Inr ?ta"
    using shape ae by (auto simp: in_set_conv_nth)
  have nbuf: "shp \<noteq> ?buf" "x \<noteq> ?buf" "m \<noteq> ?buf"
    using fresh by (auto simp: fresh_neq')
  have bio: "bi \<noteq> ?bo"
    using input(6) by simp
  \<comment> \<open>the output extents\<close>
  have "\<exists>t'. exec_block ?E ?ta = Inr t' \<and> store t' = store ?ta \<and> nextBuffer t' = nextBuffer ?ta \<and>
           (\<forall>v. valueId v < Suc ?n \<longrightarrow> env t' v = env ?ta v) \<and>
           (\<forall>k < ?R. env t' (Value (Suc ?n + 2 * k + 1) IndexType) = Some (IndexVal (oext ! (nat 0 + k))))"
    using shape(1,2) fresh(2) nbuf by (intro exec_extentOps) simp_all
  then obtain te where re: "exec_block ?E ?ta = Inr te"
    and ste: "store te = store ?ta" "nextBuffer te = nextBuffer ?ta"
    and lowe: "\<forall>v. valueId v < Suc ?n \<longrightarrow> env te v = env ?ta v"
    and hie: "\<forall>k < ?R. env te (Value (Suc ?n + 2 * k + 1) IndexType) = Some (IndexVal (oext ! k))"
    by auto
  \<comment> \<open>the broadcast flags\<close>
  have xe: "extentsOf te x = Inr iext"
    using input(1) fresh(1) lowe nbuf by (simp add: extentsOf_def)
  have oeb: "\<forall>k < ?Q. env te (?oe ! (?R - ?Q + k)) = Some (IndexVal (oext ! (?R - ?Q + k))) \<and>
                      valueId (?oe ! (?R - ?Q + k)) < Suc ?n + 2 * ?R"
    using hie oper(8) by (auto simp: stridedValues_nth)
  have "\<exists>t'. exec_block ?F te = Inr t' \<and> store t' = store te \<and> nextBuffer t' = nextBuffer te \<and>
           (\<forall>v. valueId v < Suc ?n + 2 * ?R \<longrightarrow> env t' v = env te v) \<and>
           (\<forall>k < ?Q. env t' (Value (Suc ?n + 2 * ?R + 2 * k + 1) (IntegerType 1)) =
                      Some (BoolVal (iext ! (nat 0 + k) \<noteq> oext ! (?R - ?Q + k))))"
    using fresh(1) input(2) by (intro exec_flagOps[OF xe _ oeb]) simp_all
  then obtain tf where rf: "exec_block ?F te = Inr tf"
    and stf: "store tf = store te" "nextBuffer tf = nextBuffer te"
    and lowf: "\<forall>v. valueId v < Suc ?n + 2 * ?R \<longrightarrow> env tf v = env te v"
    and hif: "\<forall>k < ?Q. env tf (Value (Suc ?n + 2 * ?R + 2 * k + 1) (IntegerType 1)) =
                      Some (BoolVal (?Fl k))"
    by auto
  \<comment> \<open>the two constants\<close>
  let ?tc = "bindValue ?c1 (IndexVal 1) (bindValue ?c0 (IndexVal 0) tf)"
  have rc: "exec_block ([ConstantIndexOp ?c0 0, ConstantIndexOp ?c1 1] @ ?nest) tf = exec_block ?nest ?tc"
    by simp
  \<comment> \<open>what the loops rely on\<close>
  define P where "P = (\<lambda>u :: 'e rt_state.
      env u ?c0 = Some (IndexVal 0) \<and> env u ?c1 = Some (IndexVal 1) \<and>
      (\<forall>q < ?R. env u (?oe ! q) = Some (IndexVal (oext ! q))) \<and>
      (\<forall>k < ?Q. env u (?fl ! k) = Some (BoolVal (?Fl k))) \<and>
      env u m = Some (MemRefVal bi) \<and> store u bi = Some ibuf \<and>
      env u ?buf = Some (MemRefVal ?bo))"
  have lowc: "env ?tc v = env tf v" if "valueId v < Suc ?n + 2 * ?R + 2 * ?Q" for v
    using that by (cases v) (auto simp: bindValue_def)
  have em: "env ?tc m = Some (MemRefVal bi)"
    using input(3) fresh(3) nbuf lowc[of m] lowf lowe by simp
  have eb: "env ?tc ?buf = Some (MemRefVal ?bo)"
    using lowc[of ?buf] lowf lowe by simp
  have eoe: "\<forall>q < ?R. env ?tc (?oe ! q) = Some (IndexVal (oext ! q))"
  proof (intro allI impI)
    fix q assume q: "q < ?R"
    then have "env ?tc (?oe ! q) = env tf (?oe ! q)"
      by (intro lowc) (simp add: stridedValues_nth)
    also have "\<dots> = env te (?oe ! q)"
      using lowf q by (simp add: stridedValues_nth)
    finally show "env ?tc (?oe ! q) = Some (IndexVal (oext ! q))"
      using hie q by (simp add: stridedValues_nth)
  qed
  have efl: "\<forall>k < ?Q. env ?tc (?fl ! k) = Some (BoolVal (?Fl k))"
  proof (intro allI impI)
    fix k assume k: "k < ?Q"
    then have "env ?tc (?fl ! k) = env tf (?fl ! k)"
      by (intro lowc) (simp add: stridedValues_nth)
    then show "env ?tc (?fl ! k) = Some (BoolVal (?Fl k))"
      using hif k by (simp add: stridedValues_nth)
  qed
  have sc: "store ?tc = (store t)(?bo \<mapsto> ?ob0)" "nextBuffer ?tc = Suc ?bo"
    using stf ste by (simp_all add: bindValue_def)
  have Pc: "P ?tc"
    unfolding P_def using em eb eoe efl sc input(4) bio
    by (simp add: bindValue_def)
  have P0: "env u ?c0 = Some (IndexVal 0)" if "P u" for u
    using that by (simp add: P_def)
  have P1: "env u ?c1 = Some (IndexVal 1)" if "P u" for u
    using that by (simp add: P_def)
  have Poe: "env u (?oe ! q) = Some (IndexVal (oext ! q))" if "P u" "q < length oext" for u q
    using that shape(2) by (simp add: P_def)
  have Ppres: "P u'" if "P u" "\<forall>v. valueId v < ?ivb \<longrightarrow> env u' v = env u v"
      "\<forall>b. b \<noteq> ?bo \<longrightarrow> store u' b = store u b" for u u'
  proof -
    have "env u' m = env u m" "env u' ?buf = env u ?buf" "env u' ?c0 = env u ?c0" "env u' ?c1 = env u ?c1"
      using that(2) fresh(3) by simp_all
    moreover have "\<forall>q < ?R. env u' (?oe ! q) = env u (?oe ! q)"
      using that(2) by (simp add: stridedValues_nth)
    moreover have "\<forall>k < ?Q. env u' (?fl ! k) = env u (?fl ! k)"
      using that(2) by (simp add: stridedValues_nth)
    moreover have "store u' bi = store u bi"
      using that(3) bio by simp
    ultimately show ?thesis
      using that(1) unfolding P_def by simp
  qed
  have bodyP: "\<exists>u'. exec_block ?body u = Inr u' \<and>
                 (\<forall>v. valueId v < ?ivb + length oext \<longrightarrow> env u' v = env u v) \<and>
                 nextBuffer u' = nextBuffer u \<and>
                 store u' = (store u)(?bo \<mapsto> ob\<lparr>cells := (cells ob)(J \<mapsto> ?src J)\<rparr>)"
    if "P u" "length J = length oext"
      "\<forall>q < length oext. env u (Value (?ivb + q) IndexType) = Some (IndexVal (J ! q))"
      "\<forall>q < length oext. 0 \<le> J ! q \<and> J ! q < oext ! q"
      "store u ?bo = Some ob" "extents ob = oext"
    for u :: "'e rt_state" and J ob
  proof -
    have inJ: "inBounds oext J"
      using that(2,4) by (simp add: inBounds_nth)
    have bidx: "broadcastIndex iext oext J =
                  map (\<lambda>k. if ?Fl k then 0 else J ! (length ?ivs - ?Q + k)) [0..<?Q]"
      using input(2) shape(2) by (simp add: broadcastIndex_def)
    have inI: "inBounds iext (broadcastIndex iext oext J)"
      using inJ nonempty input(2) shape(2) oper(8) by (intro broadcastIndex_inBounds) simp_all
    then obtain xv where xv: "cells ibuf (broadcastIndex iext oext J) = Some xv"
      using init by auto
    have a1: "\<forall>k < ?Q. env u (?fl ! k) = Some (BoolVal (?Fl k)) \<and> valueId (?fl ! k) < ?ivb + ?R"
      using that(1) by (simp add: P_def stridedValues_nth)
    have a2: "\<forall>k < length ?ivs. env u (?ivs ! k) = Some (IndexVal (J ! k)) \<and> valueId (?ivs ! k) < ?ivb + ?R"
      using that(3) shape(2) by (simp add: consecutiveValues_nth)
    have "\<exists>u'. exec_block (broadcastBody (?ivb + ?R) m ?buf met ?fl ?ivs (length ?ivs) ?Q) u = Inr u' \<and>
           (\<forall>v. valueId v < ?ivb + ?R \<longrightarrow> env u' v = env u v) \<and>
           nextBuffer u' = nextBuffer u \<and>
           store u' = (store u)(?bo \<mapsto> ob\<lparr>cells := (cells ob)(J \<mapsto> xv)\<rparr>)"
    proof (rule exec_broadcastBody[OF a1 a2, where bi = bi and ibuf = ibuf])
      show "length J = length ?ivs" using that(2) shape(2) by simp
      show "?Q \<le> length ?ivs" using oper(8) by simp
      show "env u m = Some (MemRefVal bi)" "store u bi = Some ibuf" "env u ?buf = Some (MemRefVal ?bo)"
        using that(1) by (simp_all add: P_def)
      show "valueId m < ?ivb + ?R" using fresh(3) by simp
      show "store u ?bo = Some ob" by fact
      show "valueId ?buf < ?ivb + ?R" by simp
      show "inBounds (extents ibuf) (map (\<lambda>k. if ?Fl k then 0 else J ! (length ?ivs - ?Q + k)) [0..<?Q])"
        using inI bidx input(5) by simp
      show "cells ibuf (map (\<lambda>k. if ?Fl k then 0 else J ! (length ?ivs - ?Q + k)) [0..<?Q]) = Some xv"
        using xv bidx by simp
      show "inBounds (extents ob) J" using inJ that(6) by simp
    qed
    then show ?thesis
      using xv shape(2) by simp
  qed
  \<comment> \<open>the loop nest\<close>
  have "\<exists>t' ob'.
           exec_block (loopNest ?c0 ?c1 (drop 0 (zip ?oe (consecutiveValues ?ivb (length oext)))) ?body) ?tc = Inr t' \<and>
           (\<forall>v. valueId v < ?ivb + 0 \<longrightarrow> env t' v = env ?tc v) \<and>
           nextBuffer t' = nextBuffer ?tc \<and>
           store t' = (store ?tc)(?bo \<mapsto> ob') \<and> extents ob' = oext \<and>
           (\<forall>j. cells ob' j = (if covered oext 0 [] j then Some (?src j) else cells ?ob0 j))"
    apply (rule loop_nest_exec[where P = P and bo = ?bo and ivb = ?ivb])
    subgoal using shape(2) by simp
    subgoal by (rule shape(4))
    subgoal by (erule P0)
    subgoal by (erule P1)
    subgoal by (erule Poe)
    subgoal by (erule Ppres)
    subgoal by (erule bodyP)
    subgoal by (rule Pc)
    subgoal by simp
    subgoal by simp
    subgoal by simp
    subgoal by simp
    subgoal using sc by simp
    subgoal by simp
    done
  then obtain t' ob' where rn: "exec_block ?nest ?tc = Inr t'"
    and lown: "\<forall>v. valueId v < ?ivb \<longrightarrow> env t' v = env ?tc v"
    and stn: "store t' = (store ?tc)(?bo \<mapsto> ob')" and exn: "extents ob' = oext"
    and cn: "\<forall>j. cells ob' j = (if covered oext 0 [] j then Some (?src j) else cells ?ob0 j)"
    using shape(2) by auto
  have "exec_block (drop (length (block s)) (block ?s')) t =
          exec_block (?E @ (?F @ ([ConstantIndexOp ?c0 0, ConstantIndexOp ?c1 1] @ ?nest))) ?ta"
    unfolding blk by (rule exec_block_Cons_Inr[OF alloc])
  also have "\<dots> = exec_block (?F @ ([ConstantIndexOp ?c0 0, ConstantIndexOp ?c1 1] @ ?nest)) te"
    by (rule exec_block_append_Inr[OF re])
  also have "\<dots> = exec_block ([ConstantIndexOp ?c0 0, ConstantIndexOp ?c1 1] @ ?nest) tf"
    by (rule exec_block_append_Inr[OF rf])
  also have "\<dots> = exec_block ?nest ?tc"
    by (rule rc)
  also have "\<dots> = Inr t'"
    by (rule rn)
  finally have run: "exec_block (drop (length (block s)) (block ?s')) t = Inr t'" .
  have out: "env t' ?buf = Some (MemRefVal ?bo)"
    using lown eb by simp
  have cellsj: "\<forall>j. inBounds oext j \<longrightarrow> cells ob' j = cells ibuf (broadcastIndex iext oext j)"
  proof (intro allI impI)
    fix j assume j: "inBounds oext j"
    have "inBounds iext (broadcastIndex iext oext j)"
      using j nonempty input(2) shape(2) oper(8) by (intro broadcastIndex_inBounds) simp_all
    then obtain xv where "cells ibuf (broadcastIndex iext oext j) = Some xv"
      using init by auto
    then show "cells ob' j = cells ibuf (broadcastIndex iext oext j)"
      using cn j by (simp add: covered_all)
  qed
  have inp: "store t' bi = Some ibuf"
    using stn sc input(4) bio by simp
  show ?thesis
    using code run out stn exn cellsj inp
    by (intro exI[of _ ?s'] exI[of _ t'] exI[of _ ?buf] exI[of _ ob']) simp
qed

theorem broadcast_lowering_correct_witness:
  "opName ex_broadcast = tcp_broadcast_to \<and>
   env ex_rt_broadcast (Value 1 (RankedTensorType [2] IndexType)) = Some (ShapeVal [2, 3]) \<and>
   extentsOf ex_rt_broadcast (Value 0 (RankedTensorType [1, 3] (FloatType 32))) = Inr [1, 3] \<and>
   getBuffer ex_rt_broadcast (Value 3 (MemRefType [1, 3] (FloatType 32))) =
     Inr (0, \<lparr>extents = [1, 3],
               cells = (\<lambda>i. if inBounds [1, 3] i then Some (100 + i ! 1) else None)\<rparr>) \<and>
   (\<exists>s' t' out obuf.
      LowerBroadcastToToLoopsPattern_matchAndRewrite ex_broadcast
        [Value 3 (MemRefType [1, 3] (FloatType 32))] ex_state = Inr (success, s') \<and>
      replacements s' = replacements ex_state @ [(ex_broadcast, [out])] \<and>
      exec_block (drop (length (block ex_state)) (block s')) ex_rt_broadcast = Inr t' \<and>
      env t' out = Some (MemRefVal 1) \<and>
      store t' 1 = Some obuf \<and>
      extents obuf = [2, 3] \<and>
      cells obuf [0, 0] = Some 100 \<and>
      cells obuf [1, 2] = Some 102)"
proof -
  let ?x = "Value 0 (RankedTensorType [1, 3] (FloatType 32))"
  let ?shp = "Value 1 (RankedTensorType [2] IndexType)"
  let ?r = "Value 2 (RankedTensorType [-1, -1] (FloatType 32))"
  let ?m = "Value 3 (MemRefType [1, 3] (FloatType 32))"
  let ?c = "\<lambda>i. if inBounds [1, 3] i then Some (100 + i ! 1) else (None :: int option)"
  let ?ibuf = "\<lparr>extents = [1, 3], cells = ?c\<rparr>"
  have h1: "opName ex_broadcast = tcp_broadcast_to" "operands ex_broadcast = [?x, ?shp]"
    "results ex_broadcast = [?r]"
    by (simp_all add: ex_broadcast_def)
  have h2: "getType ?r = RankedTensorType [-1, -1] (FloatType 32)"
    "getType ?x = RankedTensorType [1, 3] (FloatType 32)"
    "[?m] = ?m # []" "getType ?m = MemRefType [1, 3] (FloatType 32)"
    "length [1, 3 :: int] \<le> length [-1, -1 :: int]"
    by simp_all
  have h3: "valueId ?x < nextValue ex_state" "valueId ?shp < nextValue ex_state"
    "valueId ?m < nextValue ex_state"
    by (simp_all add: ex_state_def)
  have h4: "env ex_rt_broadcast ?shp = Some (ShapeVal [2, 3])"
    "length [2, 3 :: int] = length [-1, -1 :: int]"
    "\<forall>q < length [-1, -1 :: int]. [-1, -1 :: int] ! q = -1 \<or> [-1, -1] ! q = [2, 3 :: int] ! q"
    "\<forall>q < length [2, 3 :: int]. 0 \<le> [2, 3 :: int] ! q"
    by (simp_all add: ex_rt_broadcast_def nth_Cons')
  have h5: "env ex_rt_broadcast ?x = Some (TensorVal [1, 3] ?c)"
    "length [1, 3 :: int] = length [1, 3 :: int]"
    "env ex_rt_broadcast ?m = Some (MemRefVal 0)" "store ex_rt_broadcast 0 = Some ?ibuf"
    "extents ?ibuf = [1, 3]" "0 < nextBuffer ex_rt_broadcast"
    by (simp_all add: ex_rt_broadcast_def)
  have h6: "\<forall>i. inBounds [1, 3] i \<longrightarrow> cells ?ibuf i \<noteq> None"
    by simp
  have h7: "\<forall>q < length [1, 3 :: int].
              [1, 3 :: int] ! q = [2, 3 :: int] ! (length [2, 3 :: int] - length [1, 3 :: int] + q) \<or>
              0 < [1, 3 :: int] ! q"
    by (simp add: nth_Cons')
  from broadcast_lowering_correct[OF h1 h2 h3 h4 h5 h6 h7]
  obtain s' t' out obuf where
    a: "LowerBroadcastToToLoopsPattern_matchAndRewrite ex_broadcast [?m] ex_state = Inr (success, s')"
      "replacements s' = replacements ex_state @ [(ex_broadcast, [out])]"
      "exec_block (drop (length (block ex_state)) (block s')) ex_rt_broadcast = Inr t'"
      "env t' out = Some (MemRefVal (nextBuffer ex_rt_broadcast))"
      "store t' (nextBuffer ex_rt_broadcast) = Some obuf"
      "extents obuf = [2, 3]"
    and c: "\<forall>j. inBounds [2, 3] j \<longrightarrow> cells obuf j = cells ?ibuf (broadcastIndex [1, 3] [2, 3] j)"
    by blast
  have nb: "nextBuffer ex_rt_broadcast = 1"
    by (simp add: ex_rt_broadcast_def)
  have "cells obuf [0, 0] = cells ?ibuf (broadcastIndex [1, 3] [2, 3] [0, 0])"
    using c by (simp add: inBounds_def)
  then have c00: "cells obuf [0, 0] = Some 100"
    by (simp add: broadcastIndex_def inBounds_def)
  have "cells obuf [1, 2] = cells ?ibuf (broadcastIndex [1, 3] [2, 3] [1, 2])"
    using c by (simp add: inBounds_def)
  then have c12: "cells obuf [1, 2] = Some 102"
    by (simp add: broadcastIndex_def inBounds_def)
  have g1: "extentsOf ex_rt_broadcast ?x = Inr [1, 3]"
    by (simp add: extentsOf_def h5)
  have g2: "getBuffer ex_rt_broadcast ?m = Inr (0, ?ibuf)"
    by (simp add: getBuffer_def h5)
  show ?thesis
    using h1(1) h4(1) g1 g2 a c00 c12 unfolding nb by blast
qed

section \<open>Running the pass on its own result\<close>

text \<open>Every step of the builder, of the shape resolver, of the allocator and of the two
  patterns adds only operations that are not illegal for the target, so the conversion
  keeps the blocks under construction free of illegal operations.\<close>

lemma noIllegal_Nil [simp]: "noIllegal []"
  by (simp add: noIllegal_def allOps_def)

lemma noIllegal_append [simp]: "noIllegal (xs @ ys) \<longleftrightarrow> noIllegal xs \<and> noIllegal ys"
  by (auto simp: noIllegal_def allOps_def)

lemma noIllegal_Cons_gen: "noIllegal (x # xs) \<longleftrightarrow> noIllegal [x] \<and> noIllegal xs"
  using noIllegal_append[of "[x]" xs] by simp

lemmas noIllegal_Cons [simp] = noIllegal_Cons_gen[of _ "_ # _"]

lemma noIllegal_created [simp]:
  "noIllegal [ConstantIndexOp r n]" "noIllegal [ConstantOp r a]" "noIllegal [DimOp r v i]"
  "noIllegal [GetExtentOp r sh d]" "noIllegal [CmpIOp r p a' b]" "noIllegal [SelectOp r c a' b]"
  "noIllegal [LoadOp r m idx]" "noIllegal [StoreOp v m idx]" "noIllegal [TensorFromElementsOp r es]"
  "noIllegal [AllocMemRefOp r sh]" "noIllegal [FillOp out v]" "noIllegal [LinalgMatmulOp ins outs]"
  by (simp_all add: noIllegal_def allOps_def isIllegal_bufferizeTarget tcp_broadcast_to_def
      tcp_matmul_def shape_get_extent_def refback_alloc_memref_def)

lemma noIllegal_ForOp [simp]: "noIllegal [ForOp lb ub st iv body] \<longleftrightarrow> noIllegal body"
  by (simp add: noIllegal_def allOps_def isIllegal_bufferizeTarget tcp_broadcast_to_def tcp_matmul_def)

lemma stateLegalized_insertOp: "stateLegalized s \<Longrightarrow> noIllegal [x] \<Longrightarrow> stateLegalized (insertOp x s)"
  by (simp add: stateLegalized_def insertOp_def)

lemma stateLegalized_nextValue [simp]:
  "stateLegalized (s\<lparr>nextValue := n\<rparr>) = stateLegalized s"
  by (simp add: stateLegalized_def)

lemma stateLegalized_replacements [simp]:
  "stateLegalized (s\<lparr>replacements := n\<rparr>) = stateLegalized s"
  by (simp add: stateLegalized_def)

lemma stateLegalized_block_append:
  "stateLegalized s \<Longrightarrow> noIllegal new \<Longrightarrow> stateLegalized (s\<lparr>block := block s @ new\<rparr>)"
  by (simp add: stateLegalized_def)

lemma noIllegal_extentOps [simp]: "noIllegal (extentOps n sh i m)"
  by (induction m arbitrary: n i) (simp_all add: noIllegal_Cons_gen[of _ "extentOps _ _ _ _"])

lemma stateLegalized_outputExtents_loop:
  "outputExtents_loop i e sh s acc = (acc', s') \<Longrightarrow> stateLegalized s \<Longrightarrow> stateLegalized s'"
  using outputExtents_loop_steps[OF refl, where e = e and i = i and sh = sh and s = s and acc = acc]
  by (auto simp: stateLegalized_def)

lemma stateLegalized_flags_loop:
  "nat (e - i) = m \<Longrightarrow> inputDimRequiresBroadcasting_loop i e x rd oe s acc = Inr (acc', s') \<Longrightarrow>
   stateLegalized s \<Longrightarrow> stateLegalized s'"
proof (induction m arbitrary: i s acc)
  case 0
  then show ?case
    by (simp add: inputDimRequiresBroadcasting_loop.simps[of i e])
next
  case (Suc m)
  then have lt: "i < e" and m: "nat (e - (i + 1)) = m"
    by simp_all
  from Suc.prems(2) obtain ov where run:
    "inputDimRequiresBroadcasting_loop (i + 1) e x rd oe
       (s\<lparr>nextValue := Suc (Suc (nextValue s)),
          block := block s @ [DimOp (Value (nextValue s) IndexType) x i,
                              CmpIOp (Value (Suc (nextValue s)) (IntegerType 1)) cmp_ne
                                (Value (nextValue s) IndexType) ov]\<rparr>)
       (acc @ [Value (Suc (nextValue s)) (IntegerType 1)]) = Inr (acc', s')"
    by (subst (asm) inputDimRequiresBroadcasting_loop.simps)
       (auto simp: lt create_DimOp_eq create_CmpIOp_eq split: sum.splits)
  show ?case
    using Suc.prems(3)
    by (intro Suc.IH[OF m run]) (simp add: stateLegalized_def)
qed

lemma stateLegalized_createLoops_loop:
  "nat (e - i) = m \<Longrightarrow> createLoops_loop i e c0 c1 oe s acc = Inr (acc', s') \<Longrightarrow>
   stateLegalized s \<Longrightarrow> stateLegalized s'"
proof (induction m arbitrary: i s acc)
  case 0
  then show ?case
    by (simp add: createLoops_loop.simps[of i e])
next
  case (Suc m)
  then have lt: "i < e" and m: "nat (e - (i + 1)) = m"
    by simp_all
  from Suc.prems(2) obtain ub where run:
    "createLoops_loop (i + 1) e c0 c1 oe
       (s\<lparr>nextValue := Suc (nextValue s), block := [],
          enclosing := (block s, c0, ub, c1, Value (nextValue s) IndexType) # enclosing s\<rparr>)
       (acc @ [Value (nextValue s) IndexType]) = Inr (acc', s')"
    by (subst (asm) createLoops_loop.simps)
       (auto simp: lt create_ForOp_enter_eq split: sum.splits)
  show ?case
    using Suc.prems(3)
    by (intro Suc.IH[OF m run]) (simp add: stateLegalized_def)
qed

lemma stateLegalized_inputIndices_loop:
  "nat (e - i) = m \<Longrightarrow> inputIndices_loop i e rd fl ivs s acc = Inr (acc', s') \<Longrightarrow>
   stateLegalized s \<Longrightarrow> stateLegalized s'"
proof (induction m arbitrary: i s acc)
  case 0
  then show ?case
    by (simp add: inputIndices_loop.simps[of i e])
next
  case (Suc m)
  then have lt: "i < e" and m: "nat (e - (i + 1)) = m"
    by simp_all
  from Suc.prems(2) obtain flag iv where run:
    "inputIndices_loop (i + 1) e rd fl ivs
       (s\<lparr>nextValue := Suc (Suc (nextValue s)),
          block := block s @ [ConstantIndexOp (Value (nextValue s) IndexType) 0,
                              SelectOp (Value (Suc (nextValue s)) IndexType) flag
                                (Value (nextValue s) IndexType) iv]\<rparr>)
       (acc @ [Value (Suc (nextValue s)) IndexType]) = Inr (acc', s')"
    by (subst (asm) inputIndices_loop.simps)
       (auto simp: lt create_ConstantIndexOp_eq create_SelectOp_eq split: sum.splits)
  show ?case
    using Suc.prems(3)
    by (intro Suc.IH[OF m run]) (simp add: stateLegalized_def)
qed

lemma stateLegalized_closeLoop: "stateLegalized s \<Longrightarrow> stateLegalized (closeLoop s)"
  by (auto simp: stateLegalized_def closeLoop_def split: list.splits)

lemma stateLegalized_restoreInsertionPoint:
  "stateLegalized s \<Longrightarrow> stateLegalized (restoreInsertionPoint d s)"
proof (induction d s rule: restoreInsertionPoint.induct)
  case (1 depth s)
  then show ?case
    by (subst restoreInsertionPoint.simps) (simp add: stateLegalized_closeLoop)
qed

lemma stateLegalized_bypassResultShapes:
  "bypassResultShapes oper s = Inr (shs, s') \<Longrightarrow> stateLegalized s \<Longrightarrow> stateLegalized s'"
  by (auto simp: bypassResultShapes_def create_DimOp_eq create_TensorFromElementsOp_def newValue_def
      insertOp_def stateLegalized_def
      elim!: bindF_eq_InrE split: if_splits)

lemma stateLegalized_allocateResults_loop:
  "allocateResults_loop rs shs s acc = Inr (acc', s') \<Longrightarrow> stateLegalized s \<Longrightarrow> stateLegalized s'"
proof (induction rs arbitrary: shs s acc)
  case Nil
  then show ?case by simp
next
  case (Cons r rs)
  show ?case
  proof (cases shs)
    case Nil
    with Cons.prems show ?thesis by simp
  next
    case (Cons sh shs')
    with Cons.prems(1) obtain dims et where run:
      "allocateResults_loop rs shs'
         (s\<lparr>nextValue := Suc (nextValue s),
            block := block s @ [AllocMemRefOp (Value (nextValue s) (MemRefType dims et)) sh]\<rparr>)
         (acc @ [Value (nextValue s) (MemRefType dims et)]) = Inr (acc', s')"
      by (auto simp: create_AllocMemRefOp_eq Let_def split: sum.splits)
    show ?thesis
      using Cons.prems(2) by (intro Cons.IH[OF run]) (simp add: stateLegalized_def)
  qed
qed

lemma stateLegalized_allocateResults:
  "allocateResults oper s out = Inr (res, out', s') \<Longrightarrow> stateLegalized s \<Longrightarrow> stateLegalized s'"
  by (auto simp: allocateResults_def elim!: bindF_eq_InrE
      dest: stateLegalized_bypassResultShapes stateLegalized_allocateResults_loop)


lemma stateLegalized_created [simp]:
  "stateLegalized (snd (create_ConstantIndexOp n s)) = stateLegalized s"
  "stateLegalized (snd (create_ConstantOp a s)) = stateLegalized s"
  "stateLegalized (create_StoreOp v m idx s) = stateLegalized s"
  "stateLegalized (create_FillOp out v s) = stateLegalized s"
  "stateLegalized (create_LinalgMatmulOp ins outs s) = stateLegalized s"
  "stateLegalized (replaceOp oper vals s) = stateLegalized s"
  by (simp_all add: create_ConstantIndexOp_eq create_ConstantOp_def create_StoreOp_def
      create_FillOp_def create_LinalgMatmulOp_def replaceOp_def newValue_def insertOp_def
      stateLegalized_def Let_def)

lemma stateLegalized_snd_outputExtents_loop:
  "stateLegalized s \<Longrightarrow> stateLegalized (snd (outputExtents_loop i e sh s acc))"
  using stateLegalized_outputExtents_loop[of i e sh s acc] by (cases "outputExtents_loop i e sh s acc") auto

lemma stateLegalized_create_LoadOp:
  "create_LoadOp m idx s = Inr (r, s') \<Longrightarrow> stateLegalized s \<Longrightarrow> stateLegalized s'"
  by (auto simp: create_LoadOp_def newValue_def insertOp_def stateLegalized_def elim!: bindF_eq_InrE)

lemma stateLegalized_broadcast_pattern:
  assumes "LowerBroadcastToToLoopsPattern_matchAndRewrite oper operands' s = Inr (res, s')"
    and "stateLegalized s"
  shows "stateLegalized s'"
  using assms unfolding LowerBroadcastToToLoopsPattern_matchAndRewrite_def
  apply (auto simp: Let_def split_beta elim!: bindF_eq_InrE split: FailureOr.splits
      dest!: stateLegalized_allocateResults
      intro!: stateLegalized_restoreInsertionPoint)
  apply (erule stateLegalized_create_LoadOp)
  apply (erule stateLegalized_inputIndices_loop[OF refl])
  apply (erule stateLegalized_createLoops_loop[OF refl])
  apply simp
  apply (erule stateLegalized_flags_loop[OF refl])
  apply (erule stateLegalized_snd_outputExtents_loop)
  done

lemma stateLegalized_matmul_pattern:
  assumes "BufferizeMatmulOp_matchAndRewrite oper operands' s = Inr (res, s')"
    and "stateLegalized s"
  shows "stateLegalized s'"
  using assms unfolding BufferizeMatmulOp_matchAndRewrite_def
  by (auto simp: Let_def split_beta elim!: bindF_eq_InrE split: FailureOr.splits
      dest!: stateLegalized_allocateResults)

lemma stateLegalized_matchAndRewrite:
  "matchAndRewrite p g operands' s = Inr (res, s') \<Longrightarrow> stateLegalized s \<Longrightarrow> stateLegalized s'"
  by (cases p) (auto dest: stateLegalized_broadcast_pattern stateLegalized_matmul_pattern)

lemma stateLegalized_tryPatterns:
  "tryPatterns ps g operands' s = Inr (res, s') \<Longrightarrow> stateLegalized s \<Longrightarrow> stateLegalized s'"
  by (induction ps)
     (auto split: if_splits sum.splits prod.splits LogicalResult.splits
       dest: stateLegalized_matchAndRewrite)

lemma stateLegalized_convert_block_from_ops:
  "(\<And>x s s'. x \<in> set xs \<Longrightarrow> convert_op T ps x s = Inr (success, s') \<Longrightarrow> stateLegalized s \<Longrightarrow>
      stateLegalized s') \<Longrightarrow>
   convert_block T ps xs s = Inr (success, s') \<Longrightarrow> stateLegalized s \<Longrightarrow> stateLegalized s'"
proof (induction xs arbitrary: s)
  case Nil
  then show ?case by simp
next
  case (Cons x xs)
  from Cons.prems(2) obtain u where
    x: "convert_op T ps x s = Inr (success, u)" and xs: "convert_block T ps xs u = Inr (success, s')"
    by (auto split: sum.splits prod.splits LogicalResult.splits)
  have u: "stateLegalized u"
    using Cons.prems(1)[OF _ x Cons.prems(3)] by simp
  show ?case
  proof (rule Cons.IH[OF _ xs u])
    fix y t t'
    assume "y \<in> set xs" "convert_op T ps y t = Inr (success, t')" "stateLegalized t"
    then show "stateLegalized t'"
      using Cons.prems(1)[of y t t'] by simp
  qed
qed

lemma noIllegal_GenericOp [simp]:
  "noIllegal [GenericOp g] = (\<not> isIllegal bufferizeTarget (GenericOp g))"
  by (simp add: noIllegal_def allOps_def)

lemma stateLegalized_convert_op:
  "convert_op bufferizeTarget bufferizePatterns x s = Inr (success, s') \<Longrightarrow> stateLegalized s \<Longrightarrow>
   stateLegalized s'"
proof (induction x arbitrary: s s')
  case (ForOp lb ub st iv body)
  from ForOp.prems(1) obtain u where
    legal: "\<not> isIllegal bufferizeTarget (ForOp lb ub st iv body)" and
    body: "convert_block bufferizeTarget bufferizePatterns body (s\<lparr>block := []\<rparr>) = Inr (success, u)" and
    s': "s' = u\<lparr>block := block s @ [ForOp lb ub st iv (block u)]\<rparr>"
    by (auto split: if_splits sum.splits prod.splits LogicalResult.splits)
  have "stateLegalized (s\<lparr>block := []\<rparr>)"
    using ForOp.prems(2) by (simp add: stateLegalized_def)
  with body have "stateLegalized u"
    by (rule stateLegalized_convert_block_from_ops[rotated]) (rule ForOp.IH)
  then show ?case
    using ForOp.prems(2) legal
    by (simp add: s' stateLegalized_def isIllegal_bufferizeTarget)
next
  case (GenericOp g)
  then show ?case
    by (auto simp: stateLegalized_insertOp
        split: if_splits sum.splits prod.splits LogicalResult.splits
        dest: isLegal_not_isIllegal stateLegalized_tryPatterns)
qed (auto simp: stateLegalized_insertOp split: if_splits)

lemma stateLegalized_convert_block:
  "convert_block bufferizeTarget bufferizePatterns xs s = Inr (success, s') \<Longrightarrow> stateLegalized s \<Longrightarrow>
   stateLegalized s'"
  by (erule stateLegalized_convert_block_from_ops[rotated]) (auto dest: stateLegalized_convert_op)

lemma getName_rebind [simp]: "getName (rebind f x) = getName x"
  by (cases x) simp_all

lemma isIllegal_rebind [simp]: "isIllegal T (rebind f x) = isIllegal T x"
  by (simp add: isIllegal_def)

lemma nestedOps_rebind: "nestedOps (rebind f x) = map (rebind f) (nestedOps x)"
  by (induction x) (simp_all add: allOps_def map_concat comp_def cong: map_cong)

lemma noIllegal_rebind [simp]: "noIllegal (map (rebind f) xs) = noIllegal xs"
  by (simp add: noIllegal_def allOps_def nestedOps_rebind comp_def)

lemma run_idempotent:
  assumes "runOnOperation func = Inr (PassSuccess func')"
  shows "runOnOperation func' = Inr (PassSuccess func')"
proof -
  from assms obtain s where
    run: "convert_block bufferizeTarget bufferizePatterns (funcBody func)
            \<lparr>nextValue = funcNextValue func, block = [], enclosing = [], replacements = []\<rparr> =
          Inr (success, s)" and
    f': "func' = \<lparr>funcBody = map (rebind (lookupOrDefault (replacements s))) (block s),
                  funcNextValue = nextValue s\<rparr>"
    by (auto simp: runOnOperation_def applyPartialConversion_def
        split: sum.splits prod.splits LogicalResult.splits)
  have "stateLegalized \<lparr>nextValue = funcNextValue func, block = [], enclosing = [], replacements = []\<rparr>"
    by (simp add: stateLegalized_def)
  with run have "stateLegalized s"
    by (rule stateLegalized_convert_block)
  then have "noIllegal (funcBody func')"
    by (simp add: f' stateLegalized_def)
  then show ?thesis
    by (intro run_without_illegal) (simp add: noIllegal_def)
qed

lemma ex_matmul_func_run:
  "runOnOperation ex_matmul_func = Inr (PassSuccess ex_matmul_func_converted)"
  by (simp add: runOnOperation_def applyPartialConversion_def ex_matmul_func_def
      ex_matmul_func_converted_def ex_matmul_def isLegal_def isIllegal_def getOpAction_def
      bufferizeTarget_def addLegalOp_def addIllegalOp_def addLegalDialect_def emptyTarget_def
      tcp_broadcast_to_def tcp_matmul_def refback_alloc_memref_def shape_get_extent_def
      bufferizePatterns_def BufferizeMatmulOp_matchAndRewrite_def bypassResultShapes_def
      allocateResults_def allocateResults_loop.simps Let_def
      create_DimOp_def create_TensorFromElementsOp_def create_AllocMemRefOp_def
      create_ConstantOp_def create_FillOp_def create_LinalgMatmulOp_def replaceOp_def
      newValue_def insertOp_def lookupOrDefault_def at_index_def castRankedTensorType_def
      castMemRefType_def getF32FloatAttr_def bindF_def)

text \<open>
  Claim C6. On a function all of whose operations, nested ones included, are legal for
  the target of the pass, the pass reports success and returns the function as it was.
  And whenever the pass succeeds on a function, running it again on the function it
  returned reports success and returns that function as it is.
\<close>

theorem run_on_legal_function_unchanged:
  "((\<forall>y \<in> set (allOps (funcBody func)). isLegal bufferizeTarget y) \<longrightarrow>
      runOnOperation func = Inr (PassSuccess func)) \<and>
   (\<forall>func'. runOnOperation func = Inr (PassSuccess func') \<longrightarrow>
      runOnOperation func' = Inr (PassSuccess func'))"
  using run_without_illegal[of func] run_idempotent[of func]
  by (auto dest: isLegal_not_isIllegal)

theorem run_on_legal_function_unchanged_witness:
  "list_all (isLegal bufferizeTarget) (allOps (funcBody ex_legal_func)) \<and>
   runOnOperation ex_legal_func = Inr (PassSuccess ex_legal_func) \<and>
   runOnOperation ex_matmul_func = Inr (PassSuccess ex_matmul_func_converted) \<and>
   runOnOperation ex_matmul_func_converted = Inr (PassSuccess ex_matmul_func_converted)"
proof -
  have h: "list_all (isLegal bufferizeTarget) (allOps (funcBody ex_legal_func))"
    by (simp add: ex_legal_func_def allOps_def isLegal_def getOpAction_def bufferizeTarget_def
        addLegalOp_def addIllegalOp_def addLegalDialect_def emptyTarget_def tcp_broadcast_to_def
        tcp_matmul_def refback_alloc_memref_def shape_get_extent_def)
  then have "\<forall>y \<in> set (allOps (funcBody ex_legal_func)). isLegal bufferizeTarget y"
    by (simp add: list_all_iff)
  with run_on_legal_function_unchanged[of ex_legal_func]
  have a: "runOnOperation ex_legal_func = Inr (PassSuccess ex_legal_func)"
    by blast
  from run_on_legal_function_unchanged[of ex_matmul_func] ex_matmul_func_run
  have b: "runOnOperation ex_matmul_func_converted = Inr (PassSuccess ex_matmul_func_converted)"
    by blast
  from h a b ex_matmul_func_run show ?thesis
    by simp
qed

end
